theory Spec2Isabelle
  imports Complex_Main "HOL-Library.Sublist" "HOL-Library.Multiset"
begin

section \<open>Python values\<close>

text \<open>
  A Python \<open>str\<close> is a sequence of Unicode code points, and \<open>len\<close>, indexing and slicing
  count code points. It is modelled as a list of code-point numbers. \<open>str\<close> turns an ASCII
  literal of the source into that form.
\<close>

type_synonym pystr = "nat list"

definition str :: "string \<Rightarrow> pystr" where
  "str s = map of_char s"

text \<open>\<open>s[:k]\<close> and \<open>s[k:]\<close>: a negative bound counts from the end, and bounds are clamped.\<close>

definition slice_to :: "'a list \<Rightarrow> int \<Rightarrow> 'a list" where
  "slice_to s k = (if 0 \<le> k then take (nat k) s else take (nat (int (length s) + k)) s)"

definition slice_from :: "'a list \<Rightarrow> int \<Rightarrow> 'a list" where
  "slice_from s k = (if 0 \<le> k then drop (nat k) s else drop (nat (int (length s) + k)) s)"

text \<open>
  An exception is a value of the type \<open>error\<close>, and a function that can raise returns
  \<open>error + 'a\<close>: the exceptions of Python, of the agent, of the database driver
  (\<open>DataError\<close>) and of the database engine (the last five).
\<close>

datatype error =
    IndexError
  | ValueError
  | OverflowError
  | AgentError
  | DataError
  | InvalidTextRepresentation
  | InvalidRowCountInLimitClause
  | ForeignKeyViolation
  | UniqueViolation
  | CheckViolation

text \<open>\<open>xs[i]\<close> with \<open>i \<ge> 0\<close>: an index out of range raises \<open>IndexError\<close>.\<close>

definition index :: "'a list \<Rightarrow> nat \<Rightarrow> error + 'a" where
  "index xs i = (if i < length xs then Inr (xs ! i) else Inl IndexError)"

text \<open>\<open>sep.join(xs)\<close>.\<close>

fun join :: "pystr \<Rightarrow> pystr list \<Rightarrow> pystr" where
  "join sep [] = []"
| "join sep [x] = x"
| "join sep (x # y # ys) = x @ sep @ join sep (y # ys)"

text \<open>\<open>str(i)\<close> and \<open>f"{i}"\<close> for an integer \<open>i\<close>: its decimal digits, with a minus sign
  when negative.\<close>

fun digits :: "nat \<Rightarrow> pystr" where
  "digits n = (if n < 10 then [48 + n] else digits (n div 10) @ [48 + n mod 10])"

declare digits.simps [simp del]

definition str_of_int :: "int \<Rightarrow> pystr" where
  "str_of_int i = (if i < 0 then of_char CHR ''-'' # digits (nat (- i)) else digits (nat i))"

text \<open>\<open>d.get(k, default)\<close> for a dictionary written as a list of pairs.\<close>

definition dict_get :: "('k \<times> 'v) list \<Rightarrow> 'k \<Rightarrow> 'v \<Rightarrow> 'v" where
  "dict_get d k dflt = (case map_of d k of None \<Rightarrow> dflt | Some v \<Rightarrow> v)"

text \<open>\<open>x or d\<close> for an optional string \<open>x\<close>: \<open>None\<close> and the empty string are falsy.\<close>

definition py_or :: "pystr option \<Rightarrow> pystr \<Rightarrow> pystr" where
  "py_or x d = (case x of None \<Rightarrow> d | Some s \<Rightarrow> if s = [] then d else s)"

subsection \<open>The Unicode tables behind the string methods\<close>

text \<open>
  \<open>str.lower\<close>, \<open>str.upper\<close>, \<open>str.title\<close>, \<open>str.strip\<close> and the \<open>\b\<close> of the \<open>re\<close> module
  read the interpreter's Unicode database, which is no part of the repository. The
  database is a parameter \<open>U\<close> of every function that uses one of them: which code points
  are whitespace, which are alphanumeric, and the three case conversions (functions of the
  whole string, since a conversion can change the length).
\<close>

record unicode_db =
  u_isspace :: "nat \<Rightarrow> bool"
  u_isalnum :: "nat \<Rightarrow> bool"
  u_lower :: "pystr \<Rightarrow> pystr"
  u_upper :: "pystr \<Rightarrow> pystr"
  u_title :: "pystr \<Rightarrow> pystr"

text \<open>\<open>s.strip()\<close>: leading and trailing whitespace removed.\<close>

definition strip :: "unicode_db \<Rightarrow> pystr \<Rightarrow> pystr" where
  "strip U s = rev (dropWhile (u_isspace U) (rev (dropWhile (u_isspace U) s)))"

text \<open>\<open>s.split('\n')\<close>: the pieces between line feeds; never the empty list.\<close>

fun split_lf :: "pystr \<Rightarrow> pystr list" where
  "split_lf [] = [[]]"
| "split_lf (c # cs) =
     (if c = 10 then [] # split_lf cs
      else (case split_lf cs of [] \<Rightarrow> [[c]] | l # ls \<Rightarrow> (c # l) # ls))"

text \<open>\<open>s.find(sub)\<close>: the lowest index where \<open>sub\<close> starts in \<open>s\<close>, or \<open>-1\<close>.\<close>

fun find_from :: "pystr \<Rightarrow> pystr \<Rightarrow> nat \<Rightarrow> int" where
  "find_from sub [] i = (if sub = [] then int i else - 1)"
| "find_from sub (c # cs) i = (if prefix sub (c # cs) then int i else find_from sub cs (Suc i))"

definition find :: "pystr \<Rightarrow> pystr \<Rightarrow> int" where
  "find s sub = find_from sub s 0"

subsection \<open>The fragment of \<open>re\<close> that the e-mail pattern uses\<close>

text \<open>
  A pattern is a sequence of items: \<open>\b\<close>, a literal character, and a character class under a
  greedy \<open>+\<close> or \<open>{n,}\<close>. \<open>match_here\<close> is the backtracking matcher at one start position: a
  greedy repetition first takes the longest run of class characters and gives characters
  back one at a time, down to its minimum, until the rest of the pattern matches. The
  result is the end position of the match.
\<close>

datatype re_item = WordBoundary | Lit nat | AtLeast nat "nat \<Rightarrow> bool"

definition is_word :: "unicode_db \<Rightarrow> nat \<Rightarrow> bool" where
  "is_word U c = (u_isalnum U c \<or> c = of_char CHR ''_'')"

definition at_boundary :: "unicode_db \<Rightarrow> pystr \<Rightarrow> nat \<Rightarrow> bool" where
  "at_boundary U t i =
     ((0 < i \<and> i \<le> length t \<and> is_word U (t ! (i - 1))) \<noteq> (i < length t \<and> is_word U (t ! i)))"

fun first_some :: "('a \<Rightarrow> 'b option) \<Rightarrow> 'a list \<Rightarrow> 'b option" where
  "first_some f [] = None"
| "first_some f (x # xs) = (case f x of Some y \<Rightarrow> Some y | None \<Rightarrow> first_some f xs)"

fun match_here :: "unicode_db \<Rightarrow> re_item list \<Rightarrow> pystr \<Rightarrow> nat \<Rightarrow> nat option" where
  "match_here U [] t i = Some i"
| "match_here U (WordBoundary # p) t i =
     (if at_boundary U t i then match_here U p t i else None)"
| "match_here U (Lit c # p) t i =
     (if i < length t \<and> t ! i = c then match_here U p t (Suc i) else None)"
| "match_here U (AtLeast n cls # p) t i =
     (let k = length (takeWhile cls (drop i t))
      in first_some (\<lambda>j. match_here U p t (i + j)) (rev [n ..< Suc k]))"

text \<open>
  The leftmost match from a position on, as \<open>re.search\<close> finds it: the start positions
  are tried from left to right, the first one where the pattern matches wins. The result
  is the pair of the match's start and end. It serves to say which match \<open>findall\<close> lists
  first.
\<close>

definition search_from :: "unicode_db \<Rightarrow> re_item list \<Rightarrow> pystr \<Rightarrow> nat \<Rightarrow> (nat \<times> nat) option" where
  "search_from U p t pos =
     first_some (\<lambda>i. map_option (Pair i) (match_here U p t i)) [pos ..< Suc (length t)]"

text \<open>
  \<open>re.findall\<close> for a pattern without groups: the matched substrings, found by scanning the
  start positions from left to right and resuming at the end of each match. (After an empty
  match the scan moves one position on; the e-mail pattern matches no empty string.)
\<close>

definition substring :: "pystr \<Rightarrow> nat \<Rightarrow> nat \<Rightarrow> pystr" where
  "substring t i e = take (e - i) (drop i t)"

fun findall_scan :: "unicode_db \<Rightarrow> re_item list \<Rightarrow> pystr \<Rightarrow> nat \<Rightarrow> nat list \<Rightarrow> pystr list" where
  "findall_scan U p t lo [] = []"
| "findall_scan U p t lo (i # starts) =
     (if i < lo then findall_scan U p t lo starts
      else (case match_here U p t i of
              None \<Rightarrow> findall_scan U p t lo starts
            | Some e \<Rightarrow> substring t i e # findall_scan U p t (max e (Suc i)) starts))"

definition findall :: "unicode_db \<Rightarrow> re_item list \<Rightarrow> pystr \<Rightarrow> pystr list" where
  "findall U p t = findall_scan U p t 0 [0 ..< Suc (length t)]"

subsection \<open>An instance of the tables for ASCII text\<close>

text \<open>
  \<open>ascii_db\<close> agrees with CPython's database on every string of ASCII characters (code
  points below 128), and it is used only to evaluate the functions on such strings. The
  theorems below hold for every database \<open>U\<close>.
\<close>

definition in_range :: "nat \<Rightarrow> char \<Rightarrow> char \<Rightarrow> bool" where
  "in_range c a b = (of_char a \<le> c \<and> c \<le> of_char b)"

definition ascii_lower_char :: "nat \<Rightarrow> nat" where
  "ascii_lower_char c = (if in_range c CHR ''A'' CHR ''Z'' then c + 32 else c)"

definition ascii_upper_char :: "nat \<Rightarrow> nat" where
  "ascii_upper_char c = (if in_range c CHR ''a'' CHR ''z'' then c - 32 else c)"

definition ascii_letter :: "nat \<Rightarrow> bool" where
  "ascii_letter c = (in_range c CHR ''A'' CHR ''Z'' \<or> in_range c CHR ''a'' CHR ''z'')"

text \<open>\<open>str.title\<close>: a cased character is upper-cased at the start of a run of cased
  characters and lower-cased inside it.\<close>

fun ascii_title_from :: "bool \<Rightarrow> pystr \<Rightarrow> pystr" where
  "ascii_title_from prev_cased [] = []"
| "ascii_title_from prev_cased (c # cs) =
     (if prev_cased then ascii_lower_char c else ascii_upper_char c)
       # ascii_title_from (ascii_letter c) cs"

definition ascii_db :: unicode_db where
  "ascii_db =
     \<lparr> u_isspace = (\<lambda>c. (9 \<le> c \<and> c \<le> 13) \<or> (28 \<le> c \<and> c \<le> 32)),
       u_isalnum = (\<lambda>c. ascii_letter c \<or> in_range c CHR ''0'' CHR ''9''),
       u_lower = map ascii_lower_char,
       u_upper = map ascii_upper_char,
       u_title = ascii_title_from False \<rparr>"

section \<open>Python floats\<close>

text \<open>
  A Python \<open>float\<close> is an IEEE 754 double: a finite value, an infinity or a NaN. A finite
  double is modelled by the rational number it denotes (the sign of a zero plays no part
  in the functions below). \<open>round_double\<close> rounds a rational to the nearest double, ties to
  even: 53 significant bits, subnormals below \<open>2 ^ -1022\<close>, overflow to an infinity from
  \<open>2 ^ 1024\<close> on. It gives the value of a decimal literal, and the result of a
  multiplication is the rounded exact product.
\<close>

datatype pyfloat = Finite rat | PosInf | NegInf | NaN

text \<open>\<open>n.bit_length()\<close> of a non-negative integer: the number of its binary digits.\<close>

function bit_length :: "int \<Rightarrow> int" where
  "bit_length n = (if n \<le> 0 then 0 else 1 + bit_length (n div 2))"
  by auto
termination
  by (relation "measure nat") auto

declare bit_length.simps [simp del]

text \<open>\<open>floor_log2 x\<close> for \<open>x > 0\<close>: the integer \<open>k\<close> with \<open>2 ^ k \<le> x < 2 ^ (k + 1)\<close>.\<close>

definition floor_log2 :: "rat \<Rightarrow> int" where
  "floor_log2 x =
     (let (p, q) = quotient_of x;
          d = bit_length p - bit_length q
      in if 2 powi d \<le> x then d else d - 1)"

definition round_half_even :: "rat \<Rightarrow> int" where
  "round_half_even q =
     (let f = \<lfloor>q\<rfloor>; r = q - of_int f
      in if r < 1 / 2 then f else if 1 / 2 < r then f + 1 else if even f then f else f + 1)"

definition round_double :: "rat \<Rightarrow> pyfloat" where
  "round_double x =
     (if x = 0 then Finite 0
      else let a = \<bar>x\<bar>;
               e = max (floor_log2 a - 52) (- 1074);
               y = of_int (round_half_even (a / 2 powi e)) * 2 powi e
           in if 2 powi 1024 \<le> y then (if 0 < x then PosInf else NegInf)
              else Finite (if 0 < x then y else - y))"

text \<open>A decimal literal such as \<open>0.4\<close>, and an \<open>int\<close> operand converted to \<open>float\<close>.\<close>

definition float_lit :: "rat \<Rightarrow> pyfloat" where
  "float_lit x = round_double x"

text \<open>\<open>a * b\<close> and \<open>a < b\<close> on floats.\<close>

fun fmul :: "pyfloat \<Rightarrow> pyfloat \<Rightarrow> pyfloat" where
  "fmul (Finite x) (Finite y) = round_double (x * y)"
| "fmul NaN _ = NaN"
| "fmul _ NaN = NaN"
| "fmul (Finite x) PosInf = (if x = 0 then NaN else if 0 < x then PosInf else NegInf)"
| "fmul (Finite x) NegInf = (if x = 0 then NaN else if 0 < x then NegInf else PosInf)"
| "fmul PosInf (Finite y) = (if y = 0 then NaN else if 0 < y then PosInf else NegInf)"
| "fmul NegInf (Finite y) = (if y = 0 then NaN else if 0 < y then NegInf else PosInf)"
| "fmul PosInf PosInf = PosInf"
| "fmul PosInf NegInf = NegInf"
| "fmul NegInf PosInf = NegInf"
| "fmul NegInf NegInf = PosInf"

fun flt :: "pyfloat \<Rightarrow> pyfloat \<Rightarrow> bool" where
  "flt (Finite x) (Finite y) = (x < y)"
| "flt NaN _ = False"
| "flt _ NaN = False"
| "flt (Finite x) PosInf = True"
| "flt (Finite x) NegInf = False"
| "flt PosInf _ = False"
| "flt NegInf (Finite y) = True"
| "flt NegInf PosInf = True"
| "flt NegInf NegInf = False"

text \<open>\<open>int(x)\<close>: truncation towards zero; an infinity raises \<open>OverflowError\<close>, a NaN
  \<open>ValueError\<close>.\<close>

fun py_int :: "pyfloat \<Rightarrow> error + int" where
  "py_int (Finite x) = Inr (if 0 \<le> x then \<lfloor>x\<rfloor> else \<lceil>x\<rceil>)"
| "py_int PosInf = Inl OverflowError"
| "py_int NegInf = Inl OverflowError"
| "py_int NaN = Inl ValueError"

section \<open>The relational store\<close>

text \<open>
  Modelled from the spec: the schema of the two tables, which \<open>init_database\<close> of
  \<open>src/database/connection.py\<close> creates and which is not among the sources. The spec
  (sections 3 and 6) gives \<open>customers(id, email UNIQUE, name)\<close> and \<open>tickets(id,
  customer_id REFERENCES customers, raw_content, summary, category category_enum,
  priority priority_enum, sentiment_score, created_at DEFAULT now())\<close>, each \<open>id\<close> a
  surrogate key, \<open>category_enum\<close> the labels billing, technical, feature\_request, general
  and \<open>priority_enum\<close> the labels low, medium, high, critical. A surrogate key is drawn
  from a sequence of its table, as a serial column does; a sequence is not transactional,
  so a value drawn in a transaction that rolls back stays drawn. Whatever else the schema
  asks of a ticket row (a check on the score, say) is the parameter \<open>C\<close> of the insert.
\<close>

record customer =
  c_id :: int
  c_email :: pystr
  c_name :: pystr

record ticket =
  t_id :: int
  t_customer_id :: int
  t_raw_content :: pystr
  t_summary :: pystr
  t_category :: pystr
  t_priority :: pystr
  t_sentiment_score :: pyfloat
  t_created_at :: int

record store =
  customers_tbl :: "customer list"
  tickets_tbl :: "ticket list"
  customers_id_seq :: int
  tickets_id_seq :: int

definition category_enum :: "pystr list" where
  "category_enum = [str ''billing'', str ''technical'', str ''feature_request'', str ''general'']"

definition priority_enum :: "pystr list" where
  "priority_enum = [str ''low'', str ''medium'', str ''high'', str ''critical'']"

text \<open>
  The statements of the source, as functions of the store. Each returns the store after
  it and either the value of its \<open>RETURNING\<close> clause or the error it raises.

  \<open>INSERT INTO customers (email, name) VALUES ($1, $2) ON CONFLICT (email) DO UPDATE SET
  name = EXCLUDED.name RETURNING id\<close>: the row proposed for insertion draws its id from
  the sequence; when a row with the e-mail exists, that row's name is overwritten and its
  id returned, otherwise the proposed row is inserted.
\<close>

definition upsert_customer :: "store \<Rightarrow> pystr \<Rightarrow> pystr \<Rightarrow> store \<times> (error + int)" where
  "upsert_customer s e n =
     (let new_id = customers_id_seq s + 1;
          s1 = s\<lparr>customers_id_seq := new_id\<rparr>
      in case List.find (\<lambda>c. c_email c = e) (customers_tbl s) of
           Some c \<Rightarrow>
             (s1\<lparr>customers_tbl := map (\<lambda>c. if c_email c = e then c\<lparr>c_name := n\<rparr> else c) (customers_tbl s)\<rparr>,
              Inr (c_id c))
         | None \<Rightarrow>
             if new_id \<in> c_id ` set (customers_tbl s) then (s1, Inl UniqueViolation)
             else (s1\<lparr>customers_tbl := customers_tbl s @ [\<lparr>c_id = new_id, c_email = e, c_name = n\<rparr>]\<rparr>,
                   Inr new_id))"

text \<open>
  \<open>INSERT INTO tickets (customer_id, raw_content, summary, category, priority,
  sentiment_score) VALUES ($1, $2, $3, $4::category_enum, $5::priority_enum, $6)
  RETURNING id\<close>: the casts fail on a text that is no label of the enumeration; the row
  must reference a customer and satisfy the other constraints \<open>C\<close> of the table;
  \<open>created_at\<close> takes the current time \<open>now\<close>.
\<close>

definition insert_ticket ::
  "(ticket \<Rightarrow> bool) \<Rightarrow> int \<Rightarrow> store \<Rightarrow> int \<Rightarrow> pystr \<Rightarrow> pystr \<Rightarrow> pystr \<Rightarrow> pystr \<Rightarrow> pyfloat
   \<Rightarrow> store \<times> (error + int)" where
  "insert_ticket C now s customer_id raw_content summary category priority sentiment_score =
     (if category \<notin> set category_enum \<or> priority \<notin> set priority_enum
      then (s, Inl InvalidTextRepresentation)
      else let new_id = tickets_id_seq s + 1;
               s1 = s\<lparr>tickets_id_seq := new_id\<rparr>;
               row = \<lparr> t_id = new_id, t_customer_id = customer_id, t_raw_content = raw_content,
                       t_summary = summary, t_category = category, t_priority = priority,
                       t_sentiment_score = sentiment_score, t_created_at = now \<rparr>
           in if \<not> C row then (s1, Inl CheckViolation)
              else if new_id \<in> t_id ` set (tickets_tbl s) then (s1, Inl UniqueViolation)
              else if customer_id \<notin> c_id ` set (customers_tbl s) then (s1, Inl ForeignKeyViolation)
              else (s1\<lparr>tickets_tbl := tickets_tbl s @ [row]\<rparr>, Inr new_id))"

text \<open>
  \<open>async with conn.transaction()\<close>: the block's writes are committed when it ends
  normally and rolled back when it raises; the sequences keep the values drawn.
\<close>

definition transaction ::
  "(store \<Rightarrow> store \<times> (error + 'a)) \<Rightarrow> store \<Rightarrow> store \<times> (error + 'a)" where
  "transaction body s =
     (case body s of
        (s', Inr x) \<Rightarrow> (s', Inr x)
      | (s', Inl e) \<Rightarrow>
          (s\<lparr>customers_id_seq := customers_id_seq s', tickets_id_seq := tickets_id_seq s'\<rparr>, Inl e))"

text \<open>
  The rows of \<open>SELECT ... FROM tickets t JOIN customers c ON t.customer_id = c.id ORDER BY
  t.created_at DESC LIMIT $1\<close>, as dictionaries. Rows with equal \<open>created_at\<close> come in an
  order the engine chooses; here it is the reverse of their order in the store, and the
  theorems below hold for every order of the rows in the store. The parameter of
  \<open>LIMIT\<close> is a 64-bit integer: the driver refuses a value outside its range, and the
  engine refuses a negative one.
\<close>

record ticket_row =
  r_id :: int
  r_summary :: pystr
  r_category :: pystr
  r_priority :: pystr
  r_sentiment_score :: pyfloat
  r_created_at :: int
  r_customer_name :: pystr
  r_customer_email :: pystr

definition joined_row :: "ticket \<Rightarrow> customer \<Rightarrow> ticket_row" where
  "joined_row t c =
     \<lparr> r_id = t_id t, r_summary = t_summary t, r_category = t_category t,
       r_priority = t_priority t, r_sentiment_score = t_sentiment_score t,
       r_created_at = t_created_at t, r_customer_name = c_name c, r_customer_email = c_email c \<rparr>"

definition join_tickets_customers :: "store \<Rightarrow> ticket_row list" where
  "join_tickets_customers s =
     concat (map (\<lambda>t. map (joined_row t) (filter (\<lambda>c. t_customer_id t = c_id c) (customers_tbl s)))
                 (tickets_tbl s))"

definition select_recent :: "store \<Rightarrow> int \<Rightarrow> error + ticket_row list" where
  "select_recent s limit =
     (if limit < - (2 ^ 63) \<or> 2 ^ 63 \<le> limit then Inl DataError
      else if limit < 0 then Inl InvalidRowCountInLimitClause
      else Inr (take (nat limit) (rev (sort_key r_created_at (join_tickets_customers s)))))"

section \<open>main.py\<close>

subsection \<open>extract\_customer\_info\<close>

text \<open>The character classes \<open>[A-Za-z0-9._%+-]\<close>, \<open>[A-Za-z0-9.-]\<close> and \<open>[A-Z|a-z]\<close>; inside
  a class \<open>|\<close> is a literal character.\<close>

definition local_class :: "nat \<Rightarrow> bool" where
  "local_class c =
     (in_range c CHR ''A'' CHR ''Z'' \<or> in_range c CHR ''a'' CHR ''z''
      \<or> in_range c CHR ''0'' CHR ''9'' \<or> c \<in> set (str ''._%+-''))"

definition domain_class :: "nat \<Rightarrow> bool" where
  "domain_class c =
     (in_range c CHR ''A'' CHR ''Z'' \<or> in_range c CHR ''a'' CHR ''z''
      \<or> in_range c CHR ''0'' CHR ''9'' \<or> c \<in> set (str ''.-''))"

definition tld_class :: "nat \<Rightarrow> bool" where
  "tld_class c =
     (in_range c CHR ''A'' CHR ''Z'' \<or> c = of_char CHR ''|'' \<or> in_range c CHR ''a'' CHR ''z'')"

definition email_pattern :: "re_item list" where
  "email_pattern =
     [WordBoundary, AtLeast 1 local_class, Lit (of_char CHR ''@''),
      AtLeast 1 domain_class, Lit (of_char CHR ''.''), AtLeast 2 tld_class, WordBoundary]"

record customer_info =
  email :: pystr
  name :: pystr

text \<open>The loop over the lines: the first line whose lower-cased form contains \<open>name:\<close>
  gives the name and ends the loop.\<close>

fun name_loop :: "unicode_db \<Rightarrow> pystr list \<Rightarrow> pystr option" where
  "name_loop U [] = None"
| "name_loop U (line # lines) =
     (if sublist (str ''name:'') (u_lower U line) then
        (let idx = find (u_lower U line) (str ''name:'')
         in if idx \<noteq> - 1 then Some (strip U (slice_from line (idx + 5)))
            else name_loop U lines)
      else name_loop U lines)"

definition extract_customer_info :: "unicode_db \<Rightarrow> pystr \<Rightarrow> error + customer_info" where
  "extract_customer_info U ticket_content =
     (let matches = findall U email_pattern ticket_content
      in case (if matches \<noteq> [] then map_sum id Some (index matches 0) else Inr None) of
           Inl e \<Rightarrow> Inl e
         | Inr email_opt \<Rightarrow>
             (let name_opt = name_loop U (split_lf ticket_content)
              in Inr \<lparr> email = py_or email_opt (str ''unknown@example.com''),
                       name = py_or name_opt (str ''Unknown Customer'') \<rparr>))"

subsection \<open>The sample tickets\<close>

text \<open>The five triple-quoted literals of \<open>SAMPLE_TICKETS\<close>; each starts and ends with a
  line feed.\<close>

definition sample_ticket_1 :: pystr where
  "sample_ticket_1 =
     str (''\<newline>'' @
          ''Subject: Billing Error - Charged Twice This Month!\<newline>'' @
          ''\<newline>'' @
          ''Hello,\<newline>'' @
          ''\<newline>'' @
          ''I just checked my bank statement and noticed I was charged TWICE for my monthly subscription!\<newline>'' @
          ''This is completely unacceptable. I've been a loyal customer for over 2 years and this has never\<newline>'' @
          ''happened before.\<newline>'' @
          ''\<newline>'' @
          ''I need this fixed IMMEDIATELY and I want a full refund for the duplicate charge. This better\<newline>'' @
          ''not happen again or I'm canceling my subscription.\<newline>'' @
          ''\<newline>'' @
          ''Email: sarah.johnson@email.com\<newline>'' @
          ''Name: Sarah Johnson\<newline>'' @
          ''\<newline>'' @
          ''Please respond ASAP.\<newline>'' @
          ''\<newline>'' @
          ''Frustrated,\<newline>'' @
          ''Sarah Johnson\<newline>'')"

definition sample_ticket_2 :: pystr where
  "sample_ticket_2 =
     str (''\<newline>'' @
          ''Subject: Cannot Login to My Account\<newline>'' @
          ''\<newline>'' @
          ''Hi Support Team,\<newline>'' @
          ''\<newline>'' @
          ''I've been trying to log into my account for the past hour but keep getting an \"Invalid credentials\"\<newline>'' @
          ''error. I'm 100% sure I'm using the correct password. I even tried the forgot password link but\<newline>'' @
          ''never received the reset email.\<newline>'' @
          ''\<newline>'' @
          ''This is preventing me from accessing important documents I need for work today. Can someone please\<newline>'' @
          ''help me regain access as soon as possible?\<newline>'' @
          ''\<newline>'' @
          ''Email: michael.chen@techcorp.com\<newline>'' @
          ''Name: Michael Chen\<newline>'' @
          ''\<newline>'' @
          ''Thanks,\<newline>'' @
          ''Michael\<newline>'')"

definition sample_ticket_3 :: pystr where
  "sample_ticket_3 =
     str (''\<newline>'' @
          ''Subject: Feature Request - Dark Mode\<newline>'' @
          ''\<newline>'' @
          ''Hello!\<newline>'' @
          ''\<newline>'' @
          ''I absolutely love your application and use it every day. However, I work late nights and the bright\<newline>'' @
          ''white interface can be quite straining on my eyes. Would it be possible to add a dark mode option?\<newline>'' @
          ''\<newline>'' @
          ''I know many users have been asking for this feature on your forums. It would be a great quality of\<newline>'' @
          ''life improvement!\<newline>'' @
          ''\<newline>'' @
          ''Email: emma.davis@design.io\<newline>'' @
          ''Name: Emma Davis\<newline>'' @
          ''\<newline>'' @
          ''Keep up the great work!\<newline>'' @
          ''Emma\<newline>'')"

definition sample_ticket_4 :: pystr where
  "sample_ticket_4 =
     str (''\<newline>'' @
          ''Subject: Question About Pricing Plans\<newline>'' @
          ''\<newline>'' @
          ''Hi there,\<newline>'' @
          ''\<newline>'' @
          ''I'm currently on the Basic plan but considering upgrading to Pro. Could you help me understand the\<newline>'' @
          ''differences between the two plans? Specifically, I'm interested in knowing about storage limits and\<newline>'' @
          ''the number of team members I can add.\<newline>'' @
          ''\<newline>'' @
          ''Also, if I upgrade mid-month, will I be charged the full amount or prorated?\<newline>'' @
          ''\<newline>'' @
          ''Email: alex.rivera@startup.com\<newline>'' @
          ''Name: Alex Rivera\<newline>'' @
          ''\<newline>'' @
          ''Thank you!\<newline>'' @
          ''Alex\<newline>'')"

definition sample_ticket_5 :: pystr where
  "sample_ticket_5 =
     str (''\<newline>'' @
          ''Subject: Thank You!\<newline>'' @
          ''\<newline>'' @
          ''Dear Support Team,\<newline>'' @
          ''\<newline>'' @
          ''I just wanted to take a moment to thank you for the excellent customer service I received yesterday.\<newline>'' @
          ''Jessica helped me resolve my technical issue within minutes and was incredibly patient and professional.\<newline>'' @
          ''\<newline>'' @
          ''It's rare to find such dedicated support these days. You have a great team!\<newline>'' @
          ''\<newline>'' @
          ''Email: olivia.martinez@email.com\<newline>'' @
          ''Name: Olivia Martinez\<newline>'' @
          ''\<newline>'' @
          ''Best regards,\<newline>'' @
          ''Olivia\<newline>'')"

definition SAMPLE_TICKETS :: "pystr list" where
  "SAMPLE_TICKETS = [sample_ticket_1, sample_ticket_2, sample_ticket_3, sample_ticket_4, sample_ticket_5]"

text \<open>
  \<open>SAMPLE_TICKET = random.choice(SAMPLE_TICKETS)\<close>, evaluated once when the module is
  imported. \<open>random.choice\<close> indexes the sequence at a position drawn below its length
  (and raises \<open>IndexError\<close> on an empty sequence); the draw is the parameter \<open>r\<close>.
\<close>

definition random_choice :: "nat \<Rightarrow> 'a list \<Rightarrow> error + 'a" where
  "random_choice r xs = index xs (r mod length xs)"

definition SAMPLE_TICKET :: "nat \<Rightarrow> error + pystr" where
  "SAMPLE_TICKET r = random_choice r SAMPLE_TICKETS"

subsection \<open>get\_ticket\_input and get\_interactive\_ticket\<close>

text \<open>
  The lines that \<open>input()\<close> returns are the list \<open>stdin\<close>; at the end of the list \<open>input()\<close>
  raises \<open>EOFError\<close>, which ends the loop as the line \<open>END\<close> does. What the functions
  print is not modelled.
\<close>

definition get_interactive_ticket :: "unicode_db \<Rightarrow> pystr list \<Rightarrow> pystr" where
  "get_interactive_ticket U stdin =
     join (str ''\<newline>'') (takeWhile (\<lambda>line. u_upper U (strip U line) \<noteq> str ''END'') stdin)"

text \<open>\<open>argv\<close> is \<open>sys.argv\<close> and \<open>sample_ticket\<close> the module's \<open>SAMPLE_TICKET\<close>.\<close>

definition get_ticket_input :: "unicode_db \<Rightarrow> pystr list \<Rightarrow> pystr \<Rightarrow> pystr list \<Rightarrow> pystr" where
  "get_ticket_input U argv sample_ticket stdin =
     (if 1 < length argv then
        (if argv ! 1 = str ''--interactive'' \<or> argv ! 1 = str ''-i''
         then get_interactive_ticket U stdin
         else if argv ! 1 = str ''--all'' \<or> argv ! 1 = str ''-a''
         then str ''ALL_SAMPLES''
         else join (str '' '') (drop 1 argv))
      else sample_ticket)"

subsection \<open>process\_single\_ticket\<close>

text \<open>
  \<open>result.output\<close> of the agent. The agent (\<open>src/agent/ticket_agent.py\<close>, an external
  service behind it) is the parameter \<open>agent\<close>: a function from the prompt to the
  classification or to the error it raises. \<open>pool\<close> is the store, \<open>now\<close> the time of the
  transaction. What the function prints is not modelled.
\<close>

record classification =
  out_summary :: pystr
  out_category :: pystr
  out_priority :: pystr
  out_sentiment_score :: pyfloat

definition process_single_ticket ::
  "unicode_db \<Rightarrow> (pystr \<Rightarrow> error + classification) \<Rightarrow> (ticket \<Rightarrow> bool) \<Rightarrow> int
   \<Rightarrow> store \<Rightarrow> pystr \<Rightarrow> store \<times> (error + int)" where
  "process_single_ticket U agent C now pool ticket_content =
     (case extract_customer_info U ticket_content of
        Inl e \<Rightarrow> (pool, Inl e)
      | Inr customer_info \<Rightarrow>
          (case agent (str ''Analyze this customer support ticket:\<newline>\<newline>'' @ ticket_content) of
             Inl e \<Rightarrow> (pool, Inl e)
           | Inr output \<Rightarrow>
               transaction
                 (\<lambda>conn.
                    case upsert_customer conn (email customer_info) (name customer_info) of
                      (conn1, Inl e) \<Rightarrow> (conn1, Inl e)
                    | (conn1, Inr customer_id) \<Rightarrow>
                        insert_ticket C now conn1 customer_id ticket_content (out_summary output)
                          (out_category output) (out_priority output) (out_sentiment_score output))
                 pool))"

section \<open>display/table_display.py\<close>

subsection \<open>Colours and formats\<close>

definition get_priority_color :: "unicode_db \<Rightarrow> pystr \<Rightarrow> pystr" where
  "get_priority_color U priority =
     dict_get [(str ''critical'', str ''bright_red''), (str ''high'', str ''red''),
               (str ''medium'', str ''yellow''), (str ''low'', str ''green'')]
       (u_lower U priority) (str ''white'')"

definition get_category_color :: "unicode_db \<Rightarrow> pystr \<Rightarrow> pystr" where
  "get_category_color U category =
     dict_get [(str ''billing'', str ''cyan''), (str ''technical'', str ''magenta''),
               (str ''feature_request'', str ''blue''), (str ''general'', str ''white'')]
       (u_lower U category) (str ''white'')"

definition get_sentiment_color :: "pyfloat \<Rightarrow> pystr" where
  "get_sentiment_color score =
     (if flt score (float_lit (4 / 10)) then str ''red''
      else if flt score (float_lit (6 / 10)) then str ''yellow''
      else str ''green'')"

text \<open>The three emoji literals, with the code points the source file holds.\<close>

definition emoji_negative :: pystr where
  "emoji_negative = [0xF0, 0x178, 0x2DC, 0x17E]"

definition emoji_neutral :: pystr where
  "emoji_neutral = [0xF0, 0x178, 0x2DC]"

definition emoji_positive :: pystr where
  "emoji_positive = [0xF0, 0x178, 0x2DC, 0x160]"

definition get_sentiment_emoji :: "pyfloat \<Rightarrow> pystr" where
  "get_sentiment_emoji score =
     (if flt score (float_lit (4 / 10)) then emoji_negative
      else if flt score (float_lit (6 / 10)) then emoji_neutral
      else emoji_positive)"

definition format_sentiment :: "pyfloat \<Rightarrow> error + pystr" where
  "format_sentiment score =
     (case py_int (fmul score (float_lit 100)) of
        Inl e \<Rightarrow> Inl e
      | Inr percentage \<Rightarrow>
          (let emoji = get_sentiment_emoji score
           in Inr (str_of_int percentage @ str ''% '' @ emoji)))"

subsection \<open>truncate\_text\<close>

definition truncate_text :: "pystr \<Rightarrow> int \<Rightarrow> pystr" where
  "truncate_text text max_length =
     (if int (length text) \<le> max_length then text
      else slice_to text (max_length - 3) @ str ''...'')"

subsection \<open>fetch\_recent\_tickets\<close>

text \<open>An argument with a default value is an optional value: \<open>None\<close> when the caller
  leaves it out. \<open>limit\<close> defaults to 5.\<close>

definition fetch_recent_tickets :: "store \<Rightarrow> int option \<Rightarrow> error + ticket_row list" where
  "fetch_recent_tickets pool limit_arg =
     (let limit = (case limit_arg of None \<Rightarrow> 5 | Some l \<Rightarrow> l)
      in select_recent pool limit)"

subsection \<open>display\_recent\_tickets\<close>

text \<open>
  What the function hands to the console: the panel for an empty result, or the table with
  its title and rows. A cell built with \<open>Text(..., style=...)\<close> is a text with a style;
  a row has its six cells and the row style. The columns are the same on every call and
  are left out. A failure in the \<open>try\<close> block is reported on the console and raised again:
  the result is the error.
\<close>

record styled =
  content :: pystr
  style :: pystr

record table_row =
  cell_id :: pystr
  cell_customer :: pystr
  cell_summary :: pystr
  cell_category :: styled
  cell_priority :: styled
  cell_sentiment :: styled
  row_style :: "pystr option"

datatype display = Panel pystr | Table pystr "table_row list"

text \<open>\<open>highlight_id and ticket['id'] == highlight_id\<close>, as a truth value: \<open>None\<close> (also
  the default of the argument) and \<open>0\<close> are falsy.\<close>

definition is_new :: "int option \<Rightarrow> int \<Rightarrow> bool" where
  "is_new highlight_id ticket_id =
     (case highlight_id of None \<Rightarrow> False | Some h \<Rightarrow> h \<noteq> 0 \<and> ticket_id = h)"

definition replace_char :: "nat \<Rightarrow> nat \<Rightarrow> pystr \<Rightarrow> pystr" where
  "replace_char old new s = map (\<lambda>c. if c = old then new else c) s"

definition render_row :: "unicode_db \<Rightarrow> int option \<Rightarrow> ticket_row \<Rightarrow> error + table_row" where
  "render_row U highlight_id ticket =
     (let row_style = (if is_new highlight_id (r_id ticket) then Some (str ''on dark_green'') else None);
          ticket_id = str_of_int (r_id ticket);
          customer = truncate_text (r_customer_name ticket) 15;
          summary = truncate_text (r_summary ticket) 45;
          category = r_category ticket;
          category_color = get_category_color U category;
          category_text = \<lparr> content = u_title U (replace_char 95 32 category), style = category_color \<rparr>;
          priority = r_priority ticket;
          priority_color = get_priority_color U priority;
          priority_style = (if u_lower U priority = str ''critical''
                            then priority_color @ str '' bold'' else priority_color);
          priority_text = \<lparr> content = u_upper U priority, style = priority_style \<rparr>;
          sentiment_score = r_sentiment_score ticket
      in case format_sentiment sentiment_score of
           Inl e \<Rightarrow> Inl e
         | Inr sentiment_str \<Rightarrow>
             Inr \<lparr> cell_id = ticket_id, cell_customer = customer, cell_summary = summary,
                   cell_category = category_text, cell_priority = priority_text,
                   cell_sentiment = \<lparr> content = sentiment_str,
                                      style = get_sentiment_color sentiment_score \<rparr>,
                   row_style = row_style \<rparr>)"

fun render_rows :: "unicode_db \<Rightarrow> int option \<Rightarrow> ticket_row list \<Rightarrow> error + table_row list" where
  "render_rows U highlight_id [] = Inr []"
| "render_rows U highlight_id (ticket # tickets) =
     (case render_row U highlight_id ticket of
        Inl e \<Rightarrow> Inl e
      | Inr row \<Rightarrow>
          (case render_rows U highlight_id tickets of
             Inl e \<Rightarrow> Inl e
           | Inr rows \<Rightarrow> Inr (row # rows)))"

definition display_recent_tickets ::
  "unicode_db \<Rightarrow> store \<Rightarrow> int option \<Rightarrow> int option \<Rightarrow> error + display" where
  "display_recent_tickets U pool limit_arg highlight_id =
     (let limit = (case limit_arg of None \<Rightarrow> 5 | Some l \<Rightarrow> l)
      in case fetch_recent_tickets pool (Some limit) of
        Inl e \<Rightarrow> Inl e
      | Inr tickets \<Rightarrow>
          if tickets = [] then
            Inr (Panel (str ''[yellow]No tickets found. Process your first ticket![/yellow]''))
          else
            (case render_rows U highlight_id tickets of
               Inl e \<Rightarrow> Inl e
             | Inr rows \<Rightarrow>
                 Inr (Table (str ''[bold cyan]Recent Tickets (Last '' @ str_of_int (int (length tickets))
                             @ str '')[/bold cyan]'') rows)))"

section \<open>Specification-side definitions\<close>

subsection \<open>What the e-mail pattern accepts\<close>

text \<open>
  \<open>matches_to U p t i e\<close>: some way of choosing the repetition counts makes the pattern \<open>p\<close>
  match the text \<open>t\<close> from position \<open>i\<close> to position \<open>e\<close>. It is the declarative reading
  of a pattern, against which the backtracking matcher is verified.
\<close>

fun matches_to :: "unicode_db \<Rightarrow> re_item list \<Rightarrow> pystr \<Rightarrow> nat \<Rightarrow> nat \<Rightarrow> bool" where
  "matches_to U [] t i e = (e = i)"
| "matches_to U (WordBoundary # p) t i e = (at_boundary U t i \<and> matches_to U p t i e)"
| "matches_to U (Lit c # p) t i e = (i < length t \<and> t ! i = c \<and> matches_to U p t (Suc i) e)"
| "matches_to U (AtLeast n cls # p) t i e =
     (\<exists>j \<in> {n .. length (takeWhile cls (drop i t))}. matches_to U p t (i + j) e)"

text \<open>
  The shape of an address: \<open>local@domain.tld\<close> with a non-empty local part over
  \<open>[A-Za-z0-9._%+-]\<close>, a non-empty domain over \<open>[A-Za-z0-9.-]\<close> and a last label of at least
  two characters of the class \<open>T\<close>. An occurrence in a text is a substring of that shape
  that starts and ends at a word boundary.
\<close>

definition email_shape :: "(nat \<Rightarrow> bool) \<Rightarrow> pystr \<Rightarrow> bool" where
  "email_shape T s =
     (\<exists>local domain tld.
        s = local @ str ''@'' @ domain @ str ''.'' @ tld
        \<and> local \<noteq> [] \<and> list_all local_class local
        \<and> domain \<noteq> [] \<and> list_all domain_class domain
        \<and> 2 \<le> length tld \<and> list_all T tld)"

definition email_occurrence :: "unicode_db \<Rightarrow> (nat \<Rightarrow> bool) \<Rightarrow> pystr \<Rightarrow> nat \<Rightarrow> nat \<Rightarrow> bool" where
  "email_occurrence U T t i e =
     (i \<le> e \<and> e \<le> length t \<and> email_shape T (substring t i e)
      \<and> at_boundary U t i \<and> at_boundary U t e)"

text \<open>
  The claim's own words for a well-formed address, "local-part @ domain with at least one
  dot in the domain", read as generously to the code as the words allow: the local part
  and the domain use only characters the pattern accepts.
\<close>

definition spec_well_formed_email :: "pystr \<Rightarrow> bool" where
  "spec_well_formed_email s =
     (\<exists>local domain.
        s = local @ str ''@'' @ domain
        \<and> local \<noteq> [] \<and> list_all local_class local
        \<and> list_all domain_class domain \<and> of_char CHR ''.'' \<in> set domain)"

subsection \<open>The store's integrity constraints\<close>

text \<open>
  Modelled from the spec: the constraints of the schema (absent from the sources) as an
  invariant of the store. E-mails are unique among customers, ids are unique in each
  table and were drawn from the table's sequence, and every ticket references a customer.
  It holds of the empty store, and every statement of the source preserves it.
\<close>

definition store_ok :: "store \<Rightarrow> bool" where
  "store_ok s =
     (distinct (map c_email (customers_tbl s))
      \<and> distinct (map c_id (customers_tbl s))
      \<and> distinct (map t_id (tickets_tbl s))
      \<and> list_all (\<lambda>c. c_id c \<le> customers_id_seq s) (customers_tbl s)
      \<and> list_all (\<lambda>t. t_id t \<le> tickets_id_seq s) (tickets_tbl s)
      \<and> list_all (\<lambda>t. t_customer_id t \<in> c_id ` set (customers_tbl s)) (tickets_tbl s))"

text \<open>The update of \<open>ON CONFLICT (email) DO UPDATE SET name = EXCLUDED.name\<close> on one
  row, and the prompt the agent receives.\<close>

definition set_name :: "pystr \<Rightarrow> pystr \<Rightarrow> customer \<Rightarrow> customer" where
  "set_name e n c = (if c_email c = e then c\<lparr>c_name := n\<rparr> else c)"

definition prompt :: "pystr \<Rightarrow> pystr" where
  "prompt tc = str ''Analyze this customer support ticket:\<newline>\<newline>'' @ tc"

subsection \<open>Words of the claims about the display\<close>

text \<open>Rows ordered by \<open>created_at\<close> descending, and the row style a ticket is to get:
  highlighted when \<open>highlight_id\<close> is given, is not zero and is the ticket's id.\<close>

definition recent_first :: "ticket_row list \<Rightarrow> bool" where
  "recent_first rows = sorted_wrt (\<lambda>a b. r_created_at b \<le> r_created_at a) rows"

definition highlight_style :: "int option \<Rightarrow> ticket_row \<Rightarrow> pystr option" where
  "highlight_style highlight_id t =
     (if highlight_id \<noteq> None \<and> highlight_id \<noteq> Some 0 \<and> highlight_id = Some (r_id t)
      then Some (str ''on dark_green'') else None)"

subsection \<open>Example data\<close>

text \<open>The empty store, and an agent that classifies every ticket alike, with a given
  category.\<close>

definition store0 :: store where
  "store0 = \<lparr> customers_tbl = [], tickets_tbl = [], customers_id_seq = 0, tickets_id_seq = 0 \<rparr>"

definition agent_stub :: "pystr \<Rightarrow> pystr \<Rightarrow> error + classification" where
  "agent_stub cat p = Inr \<lparr> out_summary = str ''Duplicate billing charge'', out_category = cat,
     out_priority = str ''critical'', out_sentiment_score = Finite (3 / 20) \<rparr>"


text \<open>Stores with one customer and the tickets of the given ids, each created at time
  \<open>100 + id\<close>.\<close>

definition example_ticket :: "int \<Rightarrow> ticket" where
  "example_ticket i =
     \<lparr> t_id = i, t_customer_id = 1, t_raw_content = str ''help'', t_summary = str ''Needs help'',
       t_category = str ''general'', t_priority = str ''low'',
       t_sentiment_score = Finite (1 / 2), t_created_at = 100 + i \<rparr>"

definition example_customer :: customer where
  "example_customer = \<lparr>c_id = 1, c_email = str ''al@x.io'', c_name = str ''Al''\<rparr>"

definition store7 :: store where
  "store7 = \<lparr> customers_tbl = [example_customer],
               tickets_tbl = map example_ticket [1, 2, 3, 4, 5, 6, 7],
               customers_id_seq = 1, tickets_id_seq = 7 \<rparr>"

definition store3 :: store where
  "store3 = \<lparr> customers_tbl = [example_customer],
               tickets_tbl = map example_ticket [0, 1, 2],
               customers_id_seq = 1, tickets_id_seq = 2 \<rparr>"

section \<open>Properties of extract\_customer\_info\<close>

subsection \<open>String helpers\<close>

lemma length_str [simp]: "length (str s) = length s"
  by (simp add: str_def)

lemma find_from_sublist: "find_from sub s i \<noteq> - 1 \<longleftrightarrow> sublist sub s"
  by (induction s arbitrary: i) (auto simp: sublist_Cons_right)

lemma find_from_ge: "find_from sub s i \<noteq> - 1 \<Longrightarrow> int i \<le> find_from sub s i"
proof (induction s arbitrary: i)
  case Nil then show ?case by (simp split: if_splits)
next
  case (Cons c cs)
  show ?case
  proof (cases "prefix sub (c # cs)")
    case True then show ?thesis by simp
  next
    case False
    with Cons.prems have "find_from sub cs (Suc i) \<noteq> - 1" by simp
    from Cons.IH [OF this] False show ?thesis by simp
  qed
qed

lemma strip_all_space:
  assumes "list_all (u_isspace U) s"
  shows "strip U s = []"
proof -
  from assms have h: "dropWhile (u_isspace U) s = []"
    by (induction s) simp_all
  show ?thesis unfolding strip_def h by simp
qed

lemma name_loop_first:
  assumes "\<forall>l \<in> set before. \<not> sublist (str ''name:'') (u_lower U l)"
    and "sublist (str ''name:'') (u_lower U line)"
  shows "name_loop U (before @ line # rest) =
         Some (strip U (slice_from line (find (u_lower U line) (str ''name:'') + 5)))"
  using assms
proof (induction before)
  case Nil
  then show ?case by (simp add: find_def find_from_sublist Let_def)
next
  case (Cons l ls)
  then show ?case by simp
qed

lemma py_or_nonempty: "d \<noteq> [] \<Longrightarrow> py_or x d \<noteq> []"
  by (simp add: py_or_def split: option.splits)

lemma extract_customer_info_Inr:
  "extract_customer_info U t =
     Inr \<lparr> email = py_or (case findall U email_pattern t of [] \<Rightarrow> None | m # _ \<Rightarrow> Some m)
                      (str ''unknown@example.com''),
           name = py_or (name_loop U (split_lf t)) (str ''Unknown Customer'') \<rparr>"
  by (cases "findall U email_pattern t") (simp_all add: extract_customer_info_def index_def Let_def)

subsection \<open>The matcher against the declarative reading\<close>

lemma first_some_SomeD: "first_some f xs = Some y \<Longrightarrow> \<exists>x \<in> set xs. f x = Some y"
  by (induction xs) (auto split: option.splits)

lemma first_some_None_iff: "first_some f xs = None \<longleftrightarrow> (\<forall>x \<in> set xs. f x = None)"
  by (induction xs) (auto split: option.splits)

lemma first_some_append:
  "first_some f (xs @ ys) = (case first_some f xs of Some y \<Rightarrow> Some y | None \<Rightarrow> first_some f ys)"
  by (induction xs) (auto split: option.splits)

lemma match_here_sound: "match_here U p t i = Some e \<Longrightarrow> matches_to U p t i e"
proof (induction p arbitrary: i)
  case Nil
  then show ?case by simp
next
  case (Cons a p)
  show ?case
  proof (cases a)
    case WordBoundary
    with Cons show ?thesis by (auto split: if_splits)
  next
    case (Lit c)
    with Cons show ?thesis by (auto split: if_splits)
  next
    case (AtLeast n cls)
    define k where "k = length (takeWhile cls (drop i t))"
    from Cons.prems AtLeast
    have "first_some (\<lambda>j. match_here U p t (i + j)) (rev [n ..< Suc k]) = Some e"
      by (simp add: Let_def k_def)
    from first_some_SomeD [OF this] obtain j where "j \<in> set (rev [n ..< Suc k])"
      and m: "match_here U p t (i + j) = Some e" by blast
    then have "j \<in> {n .. k}" by auto
    with Cons.IH [OF m] AtLeast show ?thesis unfolding k_def by auto
  qed
qed

lemma match_here_complete: "matches_to U p t i e \<Longrightarrow> match_here U p t i \<noteq> None"
proof (induction p arbitrary: i)
  case Nil
  then show ?case by simp
next
  case (Cons a p)
  show ?case
  proof (cases a)
    case WordBoundary
    with Cons show ?thesis by auto
  next
    case (Lit c)
    with Cons show ?thesis by auto
  next
    case (AtLeast n cls)
    with Cons.prems obtain j where j: "n \<le> j" "j \<le> length (takeWhile cls (drop i t))"
      and m: "matches_to U p t (i + j) e" by auto
    from Cons.IH [OF m] have "match_here U p t (i + j) \<noteq> None" .
    moreover from j have "j \<in> set (rev [n ..< Suc (length (takeWhile cls (drop i t)))])" by auto
    ultimately have "first_some (\<lambda>j. match_here U p t (i + j))
        (rev [n ..< Suc (length (takeWhile cls (drop i t)))]) \<noteq> None"
      unfolding first_some_None_iff by (intro notI) (drule bspec, assumption, simp)
    with AtLeast show ?thesis by (simp add: Let_def)
  qed
qed

text \<open>Greedy choice: the result comes from the largest count for which the rest matches.\<close>

lemma first_some_greedy:
  "first_some f (rev [n ..< Suc k]) = Some y \<Longrightarrow>
   \<exists>j. n \<le> j \<and> j \<le> k \<and> f j = Some y \<and> (\<forall>j'. j < j' \<and> j' \<le> k \<longrightarrow> f j' = None)"
proof (induction k)
  case 0
  then show ?case by (cases "n = 0") (auto split: option.splits)
next
  case (Suc k)
  show ?case
  proof (cases "n \<le> Suc k")
    case False
    with Suc.prems show ?thesis by simp
  next
    case True
    then have up: "[n ..< Suc (Suc k)] = [n ..< Suc k] @ [Suc k]" by simp
    show ?thesis
    proof (cases "f (Suc k)")
      case (Some z)
      with Suc.prems up True show ?thesis by (auto intro!: exI[of _ "Suc k"])
    next
      case None
      with Suc.prems up have "first_some f (rev [n ..< Suc k]) = Some y" by simp
      from Suc.IH [OF this] obtain j where j: "n \<le> j" "j \<le> k" "f j = Some y"
        "\<forall>j'. j < j' \<and> j' \<le> k \<longrightarrow> f j' = None" by blast
      have "\<forall>j'. j < j' \<and> j' \<le> Suc k \<longrightarrow> f j' = None"
      proof (intro allI impI)
        fix j' assume "j < j' \<and> j' \<le> Suc k"
        then show "f j' = None" using j(4) None by (cases "j' = Suc k") auto
      qed
      with j show ?thesis by (intro exI[of _ j]) simp
    qed
  qed
qed

lemma search_from_Some:
  assumes "search_from U p t pos = Some (i, e)"
  shows "pos \<le> i \<and> i \<le> length t \<and> match_here U p t i = Some e
         \<and> (\<forall>i'. pos \<le> i' \<and> i' < i \<longrightarrow> match_here U p t i' = None)"
proof -
  let ?f = "\<lambda>i. map_option (Pair i) (match_here U p t i)"
  have gen: "first_some ?f [pos ..< n] = Some (i, e) \<Longrightarrow>
      pos \<le> i \<and> i < n \<and> match_here U p t i = Some e
      \<and> (\<forall>i'. pos \<le> i' \<and> i' < i \<longrightarrow> match_here U p t i' = None)" for n
  proof (induction n)
    case 0
    then show ?case by simp
  next
    case (Suc n)
    show ?case
    proof (cases "pos \<le> n")
      case False
      with Suc.prems show ?thesis by simp
    next
      case True
      then have up: "[pos ..< Suc n] = [pos ..< n] @ [n]" by simp
      show ?thesis
      proof (cases "first_some ?f [pos ..< n]")
        case (Some r)
        with Suc.prems up have "first_some ?f [pos ..< n] = Some (i, e)"
          by (simp add: first_some_append)
        from Suc.IH [OF this] show ?thesis by auto
      next
        case None
        then have none: "\<forall>i'. pos \<le> i' \<and> i' < n \<longrightarrow> match_here U p t i' = None"
          by (auto simp: first_some_None_iff)
        from None Suc.prems up have "?f n = Some (i, e)"
          by (simp add: first_some_append split: option.splits)
        then have "i = n" "match_here U p t n = Some e" by auto
        with none True show ?thesis by auto
      qed
    qed
  qed
  from gen [of "Suc (length t)"] assms show ?thesis
    by (auto simp: search_from_def)
qed

lemma search_from_None:
  "search_from U p t pos = None \<longleftrightarrow>
   (\<forall>i. pos \<le> i \<and> i \<le> length t \<longrightarrow> match_here U p t i = None)"
  by (auto simp: search_from_def first_some_None_iff)


lemma takeWhile_take_all:
  assumes "j \<le> length (takeWhile P ys)"
  shows "list_all P (take j ys)" and "j \<le> length ys"
proof -
  have "take j ys = take j (takeWhile P ys @ dropWhile P ys)" by simp
  also have "\<dots> = take j (takeWhile P ys)" using assms by (simp del: takeWhile_dropWhile_id)
  finally have "set (take j ys) \<subseteq> set (takeWhile P ys)" by (simp add: set_take_subset)
  then show "list_all P (take j ys)" by (auto simp: list_all_iff dest: set_takeWhileD)
  from assms length_takeWhile_le [of P ys] show "j \<le> length ys" by simp
qed

lemma takeWhile_prefix_length:
  assumes "list_all P xs"
  shows "length xs \<le> length (takeWhile P (xs @ r))"
  using assms by (simp add: list_all_iff)

lemma drop_decompose: "i \<le> e \<Longrightarrow> e \<le> length t \<Longrightarrow> drop i t = substring t i e @ drop e t"
proof -
  assume a: "i \<le> e" "e \<le> length t"
  have "drop i t = take (e - i) (drop i t) @ drop (e - i) (drop i t)"
    by (rule append_take_drop_id [symmetric])
  also from a have "drop (e - i) (drop i t) = drop e t" by simp
  finally show ?thesis by (simp add: substring_def)
qed

lemma drop_eq_appendD:
  assumes "drop i t = xs @ r"
  shows "drop (i + length xs) t = r" and "take (length xs) (drop i t) = xs"
    and "i \<le> length t \<Longrightarrow> i + length xs \<le> length t"
proof -
  have "drop (i + length xs) t = drop (length xs) (drop i t)" by (simp add: add.commute)
  with assms show "drop (i + length xs) t = r" by simp
  from assms show "take (length xs) (drop i t) = xs" by simp
  have "length (drop i t) = length xs + length r" using assms by simp
  then show "i \<le> length t \<Longrightarrow> i + length xs \<le> length t" by simp
qed

lemma drop_eq_ConsD:
  assumes "drop i t = c # r"
  shows "i < length t" and "t ! i = c" and "drop (Suc i) t = r"
proof -
  from assms show "i < length t" by (cases "i < length t") auto
  from assms show "t ! i = c" by (rule nth_via_drop)
  from assms show "drop (Suc i) t = r" by (metis drop_Suc tl_drop list.sel(3))
qed

lemma matches_to_AtLeast_iff:
  "matches_to U (AtLeast n cls # p) t i e \<longleftrightarrow>
   (\<exists>xs r. drop i t = xs @ r \<and> n \<le> length xs \<and> list_all cls xs
      \<and> matches_to U p t (i + length xs) e)"
proof
  assume "matches_to U (AtLeast n cls # p) t i e"
  then obtain j where j: "n \<le> j" "j \<le> length (takeWhile cls (drop i t))"
    and m: "matches_to U p t (i + j) e" by auto
  from takeWhile_take_all [OF j(2)]
  have a: "list_all cls (take j (drop i t))" and l: "j \<le> length (drop i t)" by simp_all
  from l have len: "length (take j (drop i t)) = j" by simp
  have "drop i t = take j (drop i t) @ drop j (drop i t)"
    by (rule append_take_drop_id [symmetric])
  with j(1) a m len show "\<exists>xs r. drop i t = xs @ r \<and> n \<le> length xs \<and> list_all cls xs
      \<and> matches_to U p t (i + length xs) e"
    by (intro exI [of _ "take j (drop i t)"] exI [of _ "drop j (drop i t)"]) simp
next
  assume "\<exists>xs r. drop i t = xs @ r \<and> n \<le> length xs \<and> list_all cls xs
      \<and> matches_to U p t (i + length xs) e"
  then obtain xs r where d: "drop i t = xs @ r" and n: "n \<le> length xs"
    and a: "list_all cls xs" and m: "matches_to U p t (i + length xs) e" by blast
  from takeWhile_prefix_length [OF a, of r] d
  have "length xs \<le> length (takeWhile cls (drop i t))" by simp
  with n m show "matches_to U (AtLeast n cls # p) t i e" by auto
qed

lemma matches_to_Lit_iff:
  "matches_to U (Lit c # p) t i e \<longleftrightarrow>
   (\<exists>r. drop i t = c # r \<and> matches_to U p t (Suc i) e)"
proof
  assume "matches_to U (Lit c # p) t i e"
  then have "i < length t" "t ! i = c" "matches_to U p t (Suc i) e" by simp_all
  then show "\<exists>r. drop i t = c # r \<and> matches_to U p t (Suc i) e"
    by (auto simp: Cons_nth_drop_Suc [symmetric])
next
  assume "\<exists>r. drop i t = c # r \<and> matches_to U p t (Suc i) e"
  then obtain r where d: "drop i t = c # r" and m: "matches_to U p t (Suc i) e" by blast
  from drop_eq_ConsD [OF d] m show "matches_to U (Lit c # p) t i e" by simp
qed

lemma matches_to_email_pattern:
  "matches_to U email_pattern t i e \<longleftrightarrow> email_occurrence U tld_class t i e"
proof
  assume "matches_to U email_pattern t i e"
  then have b1: "at_boundary U t i"
    and "matches_to U [AtLeast 1 local_class, Lit 64, AtLeast 1 domain_class, Lit 46,
           AtLeast 2 tld_class, WordBoundary] t i e"
    by (simp_all add: email_pattern_def)
  then obtain local r1 where d1: "drop i t = local @ r1" and l1: "1 \<le> length local"
    and c1: "list_all local_class local"
    and "matches_to U [Lit 64, AtLeast 1 domain_class, Lit 46,
           AtLeast 2 tld_class, WordBoundary] t (i + length local) e"
    unfolding matches_to_AtLeast_iff by blast
  then obtain r2 where d2: "drop (i + length local) t = 64 # r2"
    and "matches_to U [AtLeast 1 domain_class, Lit 46,
           AtLeast 2 tld_class, WordBoundary] t (Suc (i + length local)) e"
    unfolding matches_to_Lit_iff by blast
  then obtain domain r3 where d3: "drop (Suc (i + length local)) t = domain @ r3"
    and l3: "1 \<le> length domain" and c3: "list_all domain_class domain"
    and "matches_to U [Lit 46, AtLeast 2 tld_class, WordBoundary] t
           (Suc (i + length local) + length domain) e"
    unfolding matches_to_AtLeast_iff by blast
  then obtain r4 where d4: "drop (Suc (i + length local) + length domain) t = 46 # r4"
    and "matches_to U [AtLeast 2 tld_class, WordBoundary] t
           (Suc (Suc (i + length local) + length domain)) e"
    unfolding matches_to_Lit_iff by blast
  then obtain tld r5 where d5: "drop (Suc (Suc (i + length local) + length domain)) t = tld @ r5"
    and l5: "2 \<le> length tld" and c5: "list_all tld_class tld"
    and "matches_to U [WordBoundary] t
           (Suc (Suc (i + length local) + length domain) + length tld) e"
    unfolding matches_to_AtLeast_iff by blast
  then have b2: "at_boundary U t e"
    and e: "e = Suc (Suc (i + length local) + length domain) + length tld"
    by simp_all
  from drop_eq_appendD(1) [OF d1] d2 have r1: "r1 = 64 # r2" by simp
  from drop_eq_ConsD(3) [OF d2] d3 have r2: "r2 = domain @ r3" by simp
  from drop_eq_appendD(1) [OF d3] d4 have r3: "r3 = 46 # r4" by simp
  from drop_eq_ConsD(3) [OF d4] d5 have r4: "r4 = tld @ r5" by simp
  let ?m = "local @ str ''@'' @ domain @ str ''.'' @ tld"
  from d1 r1 r2 r3 r4 have whole: "drop i t = ?m @ r5" by (simp add: str_def)
  have len: "length ?m = e - i" using e by simp
  from whole have "length t - i = length ?m + length r5"
    by (metis length_drop length_append)
  with l1 e have ele: "e \<le> length t" by simp
  from whole len have "substring t i e = ?m" by (simp add: substring_def)
  with l1 l3 l5 c1 c3 c5 have "email_shape tld_class (substring t i e)"
    unfolding email_shape_def by (intro exI [of _ local] exI [of _ domain] exI [of _ tld]) auto
  with b1 b2 ele e show "email_occurrence U tld_class t i e"
    by (simp add: email_occurrence_def)
next
  assume "email_occurrence U tld_class t i e"
  then have ie: "i \<le> e" "e \<le> length t" and b: "at_boundary U t i" "at_boundary U t e"
    and "email_shape tld_class (substring t i e)"
    by (simp_all add: email_occurrence_def)
  then obtain local domain tld where
    m: "substring t i e = local @ str ''@'' @ domain @ str ''.'' @ tld"
    and l1: "local \<noteq> []" and c1: "list_all local_class local"
    and l3: "domain \<noteq> []" and c3: "list_all domain_class domain"
    and l5: "2 \<le> length tld" and c5: "list_all tld_class tld"
    unfolding email_shape_def by blast
  from drop_decompose [OF ie] m
  have d1: "drop i t = local @ (64 # domain @ 46 # tld @ drop e t)" by (simp add: str_def)
  from drop_eq_appendD(1) [OF d1]
  have d2: "drop (i + length local) t = 64 # (domain @ 46 # tld @ drop e t)" .
  from drop_eq_ConsD(3) [OF d2]
  have d3: "drop (Suc (i + length local)) t = domain @ (46 # tld @ drop e t)" .
  from drop_eq_appendD(1) [OF d3]
  have d4: "drop (Suc (i + length local) + length domain) t = 46 # (tld @ drop e t)" .
  from drop_eq_ConsD(3) [OF d4]
  have d5: "drop (Suc (Suc (i + length local) + length domain)) t = tld @ drop e t" .
  have "length (substring t i e) = e - i" using ie by (simp add: substring_def)
  with m ie have e: "e = Suc (Suc (i + length local) + length domain) + length tld"
    by simp
  from b(2) e have "matches_to U [WordBoundary] t
           (Suc (Suc (i + length local) + length domain) + length tld) e" by simp
  with d5 l5 c5 have "matches_to U [AtLeast 2 tld_class, WordBoundary] t
           (Suc (Suc (i + length local) + length domain)) e"
    unfolding matches_to_AtLeast_iff by blast
  with d4 have "matches_to U [Lit 46, AtLeast 2 tld_class, WordBoundary] t
           (Suc (i + length local) + length domain) e"
    unfolding matches_to_Lit_iff by blast
  moreover from l3 have "1 \<le> length domain" by (cases domain) simp_all
  ultimately have "matches_to U [AtLeast 1 domain_class, Lit 46,
           AtLeast 2 tld_class, WordBoundary] t (Suc (i + length local)) e"
    using d3 c3 unfolding matches_to_AtLeast_iff by blast
  with d2 have "matches_to U [Lit 64, AtLeast 1 domain_class, Lit 46,
           AtLeast 2 tld_class, WordBoundary] t (i + length local) e"
    unfolding matches_to_Lit_iff by blast
  moreover from l1 have "1 \<le> length local" by (cases local) simp_all
  ultimately have "matches_to U [AtLeast 1 local_class, Lit 64, AtLeast 1 domain_class, Lit 46,
           AtLeast 2 tld_class, WordBoundary] t i e"
    using d1 c1 unfolding matches_to_AtLeast_iff by blast
  with b(1) show "matches_to U email_pattern t i e"
    by (simp add: email_pattern_def)
qed


lemma takeWhile_nth_holds:
  assumes "x < length (takeWhile P (drop n t))"
  shows "P (t ! (n + x))"
proof -
  from assms have "takeWhile P (drop n t) ! x \<in> set (takeWhile P (drop n t))"
    by (rule nth_mem)
  then have "P (takeWhile P (drop n t) ! x)" by (rule set_takeWhileD [THEN conjunct2])
  with assms have p: "P (drop n t ! x)" by (simp add: takeWhile_nth)
  from assms length_takeWhile_le [of P "drop n t"] have "x < length (drop n t)"
    by (rule less_le_trans)
  then have "n \<le> length t" by simp
  with p show ?thesis by simp
qed

lemma not_local_at: "\<not> local_class 64"
  by (simp add: local_class_def in_range_def str_def)

lemma not_tld_dot: "\<not> tld_class 46"
  by (simp add: tld_class_def in_range_def)

lemma match_here_email_longest:
  assumes m0: "match_here U email_pattern t i = Some e0"
    and occ: "email_occurrence U tld_class t i e"
  shows "e \<le> e0"
proof -
  define p5 where "p5 = [WordBoundary]"
  define p4 where "p4 = AtLeast 2 tld_class # p5"
  define p3 where "p3 = Lit 46 # p4"
  define p2 where "p2 = AtLeast 1 domain_class # p3"
  define p1 where "p1 = Lit 64 # p2"
  define p0 where "p0 = AtLeast 1 local_class # p1"
  have pat: "email_pattern = WordBoundary # p0"
    by (simp add: email_pattern_def p0_def p1_def p2_def p3_def p4_def p5_def)
  define kL where "kL = length (takeWhile local_class (drop i t))"
  define a where "a = Suc (i + kL)"
  define kD where "kD = length (takeWhile domain_class (drop a t))"
  \<comment> \<open>the local part is forced: it is the whole run of class characters before the @\<close>
  have forced: "j = kL" if "j \<le> kL" and "t ! (i + j) = 64" for j
  proof (rule ccontr)
    assume "j \<noteq> kL"
    with that(1) have "j < length (takeWhile local_class (drop i t))" by (simp add: kL_def)
    from takeWhile_nth_holds [OF this] that(2) not_local_at show False by simp
  qed
  \<comment> \<open>the path of the matcher\<close>
  from m0 have "match_here U p0 t i = Some e0"
    by (simp add: pat split: if_splits)
  then have "first_some (\<lambda>j. match_here U p1 t (i + j)) (rev [1 ..< Suc kL]) = Some e0"
    by (simp add: p0_def kL_def Let_def)
  from first_some_SomeD [OF this] obtain jL where "1 \<le> jL" "jL \<le> kL"
    and "match_here U p1 t (i + jL) = Some e0" by auto
  then have "t ! (i + jL) = 64" and "match_here U p2 t (Suc (i + jL)) = Some e0"
    by (simp_all add: p1_def split: if_splits)
  with forced [OF \<open>jL \<le> kL\<close>] have "match_here U p2 t a = Some e0" by (simp add: a_def)
  then have "first_some (\<lambda>j. match_here U p3 t (a + j)) (rev [1 ..< Suc kD]) = Some e0"
    by (simp add: p2_def kD_def Let_def)
  from first_some_greedy [OF this] obtain jD0 where jD0: "1 \<le> jD0" "jD0 \<le> kD"
    and m3: "match_here U p3 t (a + jD0) = Some e0"
    and g3: "\<forall>j'. jD0 < j' \<and> j' \<le> kD \<longrightarrow> match_here U p3 t (a + j') = None" by blast
  define kT0 where "kT0 = length (takeWhile tld_class (drop (Suc (a + jD0)) t))"
  from m3 have dot0: "t ! (a + jD0) = 46" and "match_here U p4 t (Suc (a + jD0)) = Some e0"
    by (simp_all add: p3_def split: if_splits)
  then have "first_some (\<lambda>j. match_here U p5 t (Suc (a + jD0) + j)) (rev [2 ..< Suc kT0]) = Some e0"
    by (simp add: p4_def kT0_def Let_def)
  from first_some_greedy [OF this] obtain jT0 where jT0: "2 \<le> jT0" "jT0 \<le> kT0"
    and m5: "match_here U p5 t (Suc (a + jD0) + jT0) = Some e0"
    and g5: "\<forall>j'. jT0 < j' \<and> j' \<le> kT0 \<longrightarrow> match_here U p5 t (Suc (a + jD0) + j') = None"
    by blast
  from m5 have e0: "e0 = Suc (a + jD0) + jT0" by (simp add: p5_def split: if_splits)
  \<comment> \<open>the path of the other occurrence\<close>
  from occ have "matches_to U email_pattern t i e" by (simp add: matches_to_email_pattern)
  then have "matches_to U p0 t i e" by (simp add: pat)
  then obtain jL' where "jL' \<le> kL" and "matches_to U p1 t (i + jL') e"
    by (auto simp: p0_def kL_def)
  then have "t ! (i + jL') = 64" and "matches_to U p2 t (Suc (i + jL')) e"
    by (simp_all add: p1_def)
  with forced [OF \<open>jL' \<le> kL\<close>] have "matches_to U p2 t a e" by (simp add: a_def)
  then obtain jD where jD: "1 \<le> jD" "jD \<le> kD" and n3: "matches_to U p3 t (a + jD) e"
    by (auto simp: p2_def kD_def)
  define kT where "kT = length (takeWhile tld_class (drop (Suc (a + jD)) t))"
  from n3 have "matches_to U p4 t (Suc (a + jD)) e" by (simp add: p3_def)
  then obtain jT where jT: "2 \<le> jT" "jT \<le> kT" and n5: "matches_to U p5 t (Suc (a + jD) + jT) e"
    by (auto simp: p4_def kT_def)
  from n5 have e: "e = Suc (a + jD) + jT" and b: "at_boundary U t (Suc (a + jD) + jT)"
    by (simp_all add: p5_def)
  \<comment> \<open>comparison\<close>
  have le: "jD \<le> jD0"
  proof (rule ccontr)
    assume "\<not> jD \<le> jD0"
    with jD g3 have "match_here U p3 t (a + jD) = None" by simp
    with match_here_complete [OF n3] show False by simp
  qed
  show ?thesis
  proof (cases "jD = jD0")
    case True
    then have k: "kT = kT0" by (simp add: kT_def kT0_def)
    have "jT \<le> jT0"
    proof (rule ccontr)
      assume "\<not> jT \<le> jT0"
      with jT k g5 have "match_here U p5 t (Suc (a + jD0) + jT) = None" by simp
      with b True show False by (simp add: p5_def)
    qed
    with True e e0 show ?thesis by simp
  next
    case False
    with le have lt: "jD < jD0" by simp
    have "Suc (a + jD) + kT \<le> a + jD0"
    proof (rule ccontr)
      assume "\<not> Suc (a + jD) + kT \<le> a + jD0"
      with lt have "a + jD0 - Suc (a + jD) < length (takeWhile tld_class (drop (Suc (a + jD)) t))"
        by (simp add: kT_def)
      from takeWhile_nth_holds [OF this] lt have "tld_class (t ! (a + jD0))" by simp
      with dot0 not_tld_dot show False by simp
    qed
    with jT e e0 show ?thesis by simp
  qed
qed

lemma findall_scan_head:
  assumes "\<forall>i \<in> set starts. lo \<le> i"
  shows "(case findall_scan U p t lo starts of [] \<Rightarrow> None | m # _ \<Rightarrow> Some m) =
         map_option (\<lambda>(i, e). substring t i e)
           (first_some (\<lambda>i. map_option (Pair i) (match_here U p t i)) starts)"
  using assms by (induction starts) (auto split: option.splits)

lemma findall_head:
  "(case findall U p t of [] \<Rightarrow> None | m # _ \<Rightarrow> Some m) =
   map_option (\<lambda>(i, e). substring t i e) (search_from U p t 0)"
  unfolding findall_def search_from_def by (rule findall_scan_head) simp


subsection \<open>The e-mail address that extract\_customer\_info returns\<close>

lemma occurrence_nonempty:
  assumes "email_occurrence U T t i e"
  shows "substring t i e \<noteq> []"
  using assms by (auto simp: email_occurrence_def email_shape_def)

lemma extract_email_found:
  assumes "email_occurrence U tld_class t i' e'"
  shows "\<exists>r i e. extract_customer_info U t = Inr r \<and> email r = substring t i e
           \<and> email_occurrence U tld_class t i e
           \<and> (\<forall>j f. email_occurrence U tld_class t j f \<longrightarrow> i \<le> j \<and> (j = i \<longrightarrow> f \<le> e))"
proof -
  from assms have "matches_to U email_pattern t i' e'" and "i' \<le> length t"
    by (simp_all add: matches_to_email_pattern email_occurrence_def)
  with match_here_complete have "match_here U email_pattern t i' \<noteq> None" by blast
  with \<open>i' \<le> length t\<close> have "search_from U email_pattern t 0 \<noteq> None"
    by (auto simp: search_from_None)
  then obtain i e where s: "search_from U email_pattern t 0 = Some (i, e)" by auto
  from search_from_Some [OF s]
  have m: "match_here U email_pattern t i = Some e"
    and first: "\<forall>j. j < i \<longrightarrow> match_here U email_pattern t j = None" by simp_all
  from match_here_sound [OF m] have occ: "email_occurrence U tld_class t i e"
    by (simp add: matches_to_email_pattern)
  have least: "i \<le> j \<and> (j = i \<longrightarrow> f \<le> e)" if o: "email_occurrence U tld_class t j f" for j f
  proof
    from o have "matches_to U email_pattern t j f" by (simp add: matches_to_email_pattern)
    then have "match_here U email_pattern t j \<noteq> None" by (rule match_here_complete)
    with first show "i \<le> j" by (cases "j < i") auto
    show "j = i \<longrightarrow> f \<le> e" using match_here_email_longest [OF m] o by blast
  qed
  obtain r where r: "extract_customer_info U t = Inr r"
    and "email r = py_or (case findall U email_pattern t of [] \<Rightarrow> None | m # _ \<Rightarrow> Some m)
                     (str ''unknown@example.com'')"
    by (simp add: extract_customer_info_Inr)
  with s findall_head [of U email_pattern t] occurrence_nonempty [OF occ]
  have "email r = substring t i e" by (simp add: py_or_def)
  with r occ least show ?thesis by blast
qed

lemma extract_email_none:
  assumes "\<forall>i e. \<not> email_occurrence U tld_class t i e"
  shows "\<exists>r. extract_customer_info U t = Inr r \<and> email r = str ''unknown@example.com''"
proof -
  have "search_from U email_pattern t 0 = None"
  proof (rule ccontr)
    assume "search_from U email_pattern t 0 \<noteq> None"
    then obtain i e where "search_from U email_pattern t 0 = Some (i, e)" by auto
    from search_from_Some [OF this] have "match_here U email_pattern t i = Some e" by simp
    from match_here_sound [OF this] assms show False by (simp add: matches_to_email_pattern)
  qed
  with findall_head [of U email_pattern t] show ?thesis
    by (simp add: extract_customer_info_Inr py_or_def split: list.splits)
qed

text \<open>In a text without the character \<open>|\<close> the last class of the pattern accepts exactly
  the ASCII letters.\<close>

lemma substring_subset: "set (substring t i e) \<subseteq> set t"
  unfolding substring_def by (meson set_take_subset set_drop_subset subset_trans)

lemma occurrence_letters:
  assumes "of_char CHR ''|'' \<notin> set t"
  shows "email_occurrence U tld_class t i e \<longleftrightarrow> email_occurrence U ascii_letter t i e"
proof -
  have cls: "tld_class c \<longleftrightarrow> ascii_letter c" if "c \<in> set t" for c
    using that assms by (auto simp: tld_class_def ascii_letter_def)
  have "list_all tld_class tld \<longleftrightarrow> list_all ascii_letter tld"
    if "substring t i e = l @ str ''@'' @ d @ str ''.'' @ tld" for l d tld
  proof -
    from that have "set tld \<subseteq> set (substring t i e)" by auto
    with substring_subset have "set tld \<subseteq> set t" by blast
    with cls show ?thesis by (auto simp: list_all_iff)
  qed
  then have "email_shape tld_class (substring t i e) \<longleftrightarrow> email_shape ascii_letter (substring t i e)"
    unfolding email_shape_def by blast
  then show ?thesis by (simp add: email_occurrence_def)
qed

lemma name_loop_none:
  assumes "\<forall>line \<in> set ls. \<not> sublist (str ''name:'') (u_lower U line)"
  shows "name_loop U ls = None"
  using assms by (induction ls) simp_all

text \<open>
  C8: extract\_customer\_info is total. The model makes the one operation that can raise,
  the index \<open>matches[0]\<close>, a branch with an \<open>IndexError\<close>; the guard \<open>if matches\<close> keeps it
  from being taken, so for every Unicode database and every text the function returns
  (never an error), and the record it returns has a non-empty e-mail and a non-empty name.
  When extraction finds nothing the values are the placeholders: the e-mail is
  \<open>unknown@example.com\<close> when \<open>findall\<close> returns no match, which is the case when the text
  has no occurrence of the pattern, and the name is \<open>Unknown Customer\<close> when no line
  contains \<open>name:\<close>.
\<close>

theorem extract_customer_info_total:
  "\<exists>r. extract_customer_info U t = Inr r \<and> email r \<noteq> [] \<and> name r \<noteq> []
       \<and> (findall U email_pattern t = [] \<longrightarrow> email r = str ''unknown@example.com'')
       \<and> ((\<forall>i e. \<not> email_occurrence U tld_class t i e) \<longrightarrow>
             email r = str ''unknown@example.com'')
       \<and> ((\<forall>line \<in> set (split_lf t). \<not> sublist (str ''name:'') (u_lower U line)) \<longrightarrow>
             name r = str ''Unknown Customer'')"
proof -
  define r where "r =
      \<lparr> email = py_or (case findall U email_pattern t of [] \<Rightarrow> None | m # _ \<Rightarrow> Some m)
                      (str ''unknown@example.com''),
        name = py_or (name_loop U (split_lf t)) (str ''Unknown Customer'') \<rparr>"
  have r: "extract_customer_info U t = Inr r"
    by (simp add: extract_customer_info_Inr r_def)
  have em: "email r = py_or (case findall U email_pattern t of [] \<Rightarrow> None | m # _ \<Rightarrow> Some m)
                     (str ''unknown@example.com'')"
    and nm: "name r = py_or (name_loop U (split_lf t)) (str ''Unknown Customer'')"
    by (simp_all add: r_def)
  from em nm have ne: "email r \<noteq> []" "name r \<noteq> []"
    by (simp_all add: py_or_nonempty str_def)
  from em have e1: "findall U email_pattern t = [] \<longrightarrow> email r = str ''unknown@example.com''"
    by (simp add: py_or_def)
  have e2: "(\<forall>i e. \<not> email_occurrence U tld_class t i e) \<longrightarrow>
             email r = str ''unknown@example.com''"
    using extract_email_none [of U t] r by auto
  have n1: "(\<forall>line \<in> set (split_lf t). \<not> sublist (str ''name:'') (u_lower U line)) \<longrightarrow>
             name r = str ''Unknown Customer''"
    using nm by (auto simp: name_loop_none py_or_def)
  from r ne e1 e2 n1 show ?thesis by blast
qed

theorem extract_customer_info_total_witness:
  "split_lf (str ''no contact details here'') = [str ''no contact details here'']
   \<and> \<not> sublist (str ''name:'') (u_lower ascii_db (str ''no contact details here''))
   \<and> findall ascii_db email_pattern (str ''no contact details here'') = []
   \<and> (\<exists>r. extract_customer_info ascii_db (str ''no contact details here'') = Inr r
          \<and> email r = str ''unknown@example.com'' \<and> name r = str ''Unknown Customer'')"
proof -
  let ?t = "str ''no contact details here''"
  have s: "split_lf ?t = [?t]" by code_simp
  have l: "\<not> sublist (str ''name:'') (u_lower ascii_db ?t)" by code_simp
  from s l have n: "\<forall>line \<in> set (split_lf ?t). \<not> sublist (str ''name:'') (u_lower ascii_db line)"
    by simp
  have f: "findall ascii_db email_pattern ?t = []" by code_simp
  from extract_customer_info_total [of ascii_db ?t] n f
  have "\<exists>r. extract_customer_info ascii_db ?t = Inr r
          \<and> email r = str ''unknown@example.com'' \<and> name r = str ''Unknown Customer''"
    by (elim exE conjE) (simp only: , blast)
  with s l f show ?thesis by (intro conjI)
qed

text \<open>
  C2, as the claim states it, fails: on the one-line text \<open>Name:\<close> the marker is followed
  by nothing, the stripped name is the empty string, and \<open>name or 'Unknown Customer'\<close>
  replaces the empty (falsy) string by the fallback. The function returns the fallback, not
  the empty string.
\<close>

theorem extract_blank_name_counterexample:
  "split_lf (str ''Name:'') = [str ''Name:'']
   \<and> sublist (str ''name:'') (u_lower ascii_db (str ''Name:''))
   \<and> strip ascii_db (slice_from (str ''Name:'')
        (find (u_lower ascii_db (str ''Name:'')) (str ''name:'') + 5)) = []
   \<and> extract_customer_info ascii_db (str ''Name:'') =
       Inr \<lparr> email = str ''unknown@example.com'', name = str ''Unknown Customer'' \<rparr>
   \<and> extract_customer_info ascii_db (str ''Name:'') \<noteq>
       Inr \<lparr> email = str ''unknown@example.com'', name = [] \<rparr>"
  by code_simp

text \<open>
  C2, amended: for every ticket text whose first line containing \<open>name:\<close>
  (case-insensitively) has only whitespace after the marker, extract\_customer\_info returns
  the fallback \<open>Unknown Customer\<close> as the name: the empty string left after trimming is
  falsy and is replaced by the fallback.
\<close>

theorem extract_blank_name:
  assumes "split_lf t = before @ line # rest"
    and "\<forall>l \<in> set before. \<not> sublist (str ''name:'') (u_lower U l)"
    and "sublist (str ''name:'') (u_lower U line)"
    and "list_all (u_isspace U) (slice_from line (find (u_lower U line) (str ''name:'') + 5))"
  shows "\<exists>r. extract_customer_info U t = Inr r \<and> name r = str ''Unknown Customer''"
  using assms
  by (simp add: extract_customer_info_Inr name_loop_first strip_all_space py_or_def)

theorem extract_blank_name_witness:
  "split_lf (str ''Hello\<newline>NAME:   \<newline>bye'') = [str ''Hello''] @ str ''NAME:   '' # [str ''bye'']
   \<and> (\<exists>r. extract_customer_info ascii_db (str ''Hello\<newline>NAME:   \<newline>bye'') = Inr r
          \<and> name r = str ''Unknown Customer'')"
proof -
  have s: "split_lf (str ''Hello\<newline>NAME:   \<newline>bye'') = [str ''Hello''] @ str ''NAME:   '' # [str ''bye'']"
    by code_simp
  have b: "\<forall>l \<in> set [str ''Hello'']. \<not> sublist (str ''name:'') (u_lower ascii_db l)"
    by code_simp
  have l: "sublist (str ''name:'') (u_lower ascii_db (str ''NAME:   ''))"
    by code_simp
  have w: "list_all (u_isspace ascii_db)
      (slice_from (str ''NAME:   '') (find (u_lower ascii_db (str ''NAME:   '')) (str ''name:'') + 5))"
    by code_simp
  from extract_blank_name [OF s b l w] s show ?thesis by blast
qed

text \<open>
  C4, as the claim states it, fails: \<open>a@b.c\<close> is a local part, an \<open>@\<close> and a domain with a
  dot, but the pattern asks for a last label of at least two characters, so the text
  \<open>a@b.c\<close> contains a well-formed address in the claim's sense and the function returns
  the fallback.
\<close>

theorem extract_email_short_tld_counterexample:
  "spec_well_formed_email (str ''a@b.c'')
   \<and> sublist (str ''a@b.c'') (str ''a@b.c'')
   \<and> extract_customer_info ascii_db (str ''a@b.c'') =
       Inr \<lparr> email = str ''unknown@example.com'', name = str ''Unknown Customer'' \<rparr>"
proof -
  have "spec_well_formed_email (str ''a@b.c'')"
    unfolding spec_well_formed_email_def
    by (intro exI [of _ "str ''a''"] exI [of _ "str ''b.c''"])
       (simp add: str_def local_class_def domain_class_def in_range_def)
  moreover have "extract_customer_info ascii_db (str ''a@b.c'') =
       Inr \<lparr> email = str ''unknown@example.com'', name = str ''Unknown Customer'' \<rparr>"
    by code_simp
  ultimately show ?thesis by simp
qed

text \<open>
  C4, amended: for every raw text without the character \<open>|\<close>: if the text contains an
  occurrence of an address \<open>local@domain.tld\<close> (a non-empty local part over
  \<open>[A-Za-z0-9._%+-]\<close>, a non-empty domain over \<open>[A-Za-z0-9.-]\<close>, a last label of at least two
  ASCII letters, with a word boundary before and after), extract\_customer\_info returns the
  leftmost occurrence, and the longest one that starts there; if the text contains none,
  it returns the fallback \<open>unknown@example.com\<close>.
\<close>

theorem extract_email_leftmost:
  assumes "of_char CHR ''|'' \<notin> set t"
  shows "\<exists>r. extract_customer_info U t = Inr r \<and>
           (if \<exists>i e. email_occurrence U ascii_letter t i e
            then \<exists>i e. email r = substring t i e \<and> email_occurrence U ascii_letter t i e
                   \<and> (\<forall>j f. email_occurrence U ascii_letter t j f \<longrightarrow> i \<le> j \<and> (j = i \<longrightarrow> f \<le> e))
            else email r = str ''unknown@example.com'')"
proof (cases "\<exists>i e. email_occurrence U ascii_letter t i e")
  case True
  then obtain i' e' where "email_occurrence U tld_class t i' e'"
    using occurrence_letters [OF assms] by blast
  from extract_email_found [OF this] True show ?thesis
    unfolding occurrence_letters [OF assms] by auto
next
  case False
  then have "\<forall>i e. \<not> email_occurrence U tld_class t i e"
    using occurrence_letters [OF assms] by blast
  from extract_email_none [OF this] False show ?thesis by auto
qed

theorem extract_email_leftmost_witness:
  "of_char CHR ''|'' \<notin> set (str ''ask bob@site.org or al@x.io'')
   \<and> email_occurrence ascii_db ascii_letter (str ''ask bob@site.org or al@x.io'') 4 16
   \<and> (\<exists>r i e. extract_customer_info ascii_db (str ''ask bob@site.org or al@x.io'') = Inr r
          \<and> email r = substring (str ''ask bob@site.org or al@x.io'') i e
          \<and> email_occurrence ascii_db ascii_letter (str ''ask bob@site.org or al@x.io'') i e
          \<and> i \<le> 4)
   \<and> of_char CHR ''|'' \<notin> set (str ''no address here'')
   \<and> (\<exists>r. extract_customer_info ascii_db (str ''no address here'') = Inr r
          \<and> email r = str ''unknown@example.com'')"
proof -
  let ?t = "str ''ask bob@site.org or al@x.io''"
  have nb: "of_char CHR ''|'' \<notin> set ?t" by (simp add: str_def)
  have sub: "substring ?t 4 16 = str ''bob'' @ str ''@'' @ str ''site'' @ str ''.'' @ str ''org''"
    by (simp add: substring_def str_def)
  have "email_shape ascii_letter (substring ?t 4 16)"
    unfolding email_shape_def sub
    by (intro exI [of _ "str ''bob''"] exI [of _ "str ''site''"] exI [of _ "str ''org''"])
       (simp add: str_def local_class_def domain_class_def ascii_letter_def in_range_def)
  moreover have "at_boundary ascii_db ?t 4" "at_boundary ascii_db ?t 16"
    by (simp_all add: at_boundary_def is_word_def ascii_db_def ascii_letter_def in_range_def str_def)
  ultimately have occ: "email_occurrence ascii_db ascii_letter ?t 4 16"
    by (simp add: email_occurrence_def)
  then have ex: "\<exists>i e. email_occurrence ascii_db ascii_letter ?t i e" by blast
  from extract_email_leftmost [OF nb, of ascii_db] ex occ
  have found: "\<exists>r i e. extract_customer_info ascii_db ?t = Inr r
          \<and> email r = substring ?t i e \<and> email_occurrence ascii_db ascii_letter ?t i e \<and> i \<le> 4"
    by (simp only: if_True) blast
  let ?u = "str ''no address here''"
  have nb': "of_char CHR ''|'' \<notin> set ?u" by (simp add: str_def)
  have "64 \<notin> set ?u" by (simp add: str_def)
  moreover have "64 \<in> set (substring ?u i e)" if "email_shape ascii_letter (substring ?u i e)" for i e
    using that unfolding email_shape_def by (auto simp: str_def)
  ultimately have none: "\<not> (\<exists>i e. email_occurrence ascii_db ascii_letter ?u i e)"
    unfolding email_occurrence_def using substring_subset [of ?u] by blast
  from extract_email_leftmost [OF nb', of ascii_db] none
  have "\<exists>r. extract_customer_info ascii_db ?u = Inr r \<and> email r = str ''unknown@example.com''"
    by (simp only: if_False)
  with nb occ found nb' show ?thesis by blast
qed

section \<open>Properties of process\_single\_ticket\<close>

lemma set_name_id [simp]: "c_id (set_name e n c) = c_id c"
  and set_name_email [simp]: "c_email (set_name e n c) = c_email c"
  by (simp_all add: set_name_def)

lemma map_set_name [simp]:
  "map c_id (map (set_name e n) xs) = map c_id xs"
  "map c_email (map (set_name e n) xs) = map c_email xs"
  by (induction xs) simp_all

lemma filter_distinct_key:
  assumes "distinct (map f xs)" and "x \<in> set xs"
  shows "filter (\<lambda>y. f y = f x) xs = [x]"
  using assms
proof (induction xs)
  case Nil
  then show ?case by simp
next
  case (Cons a xs)
  show ?case
  proof (cases "a = x")
    case True
    with Cons.prems(1) have "\<forall>y \<in> set xs. f y \<noteq> f x" by (auto intro: rev_image_eqI)
    then have "filter (\<lambda>y. f y = f x) xs = []" by (simp add: filter_empty_conv)
    with True show ?thesis by simp
  next
    case False
    with Cons.prems have x: "x \<in> set xs" and "f a \<noteq> f x" by auto
    with Cons.IH Cons.prems(1) show ?thesis by simp
  qed
qed

lemma upsert_customer_existing:
  assumes "c \<in> set (customers_tbl s)" and "c_email c = e" and "distinct (map c_email (customers_tbl s))"
  shows "upsert_customer s e n =
           (s\<lparr>customers_id_seq := customers_id_seq s + 1,
              customers_tbl := map (set_name e n) (customers_tbl s)\<rparr>, Inr (c_id c))"
proof -
  from assms(1,2) obtain c' where f: "List.find (\<lambda>c. c_email c = e) (customers_tbl s) = Some c'"
    by (cases "List.find (\<lambda>c. c_email c = e) (customers_tbl s)") (auto simp: find_None_iff)
  then have "c' \<in> set (customers_tbl s)" and "c_email c' = e"
    by (auto simp: find_Some_iff)
  with assms have "c' = c" by (metis distinct_map inj_onD)
  with f show ?thesis
    by (simp add: upsert_customer_def Let_def set_name_def [abs_def])
qed

lemma upsert_customer_new:
  assumes "e \<notin> c_email ` set (customers_tbl s)"
    and "list_all (\<lambda>c. c_id c \<le> customers_id_seq s) (customers_tbl s)"
  shows "upsert_customer s e n =
           (s\<lparr>customers_id_seq := customers_id_seq s + 1,
              customers_tbl := customers_tbl s @
                 [\<lparr>c_id = customers_id_seq s + 1, c_email = e, c_name = n\<rparr>]\<rparr>,
            Inr (customers_id_seq s + 1))"
proof -
  from assms(1) have f: "List.find (\<lambda>c. c_email c = e) (customers_tbl s) = None"
    by (auto simp: find_None_iff)
  from assms(2) have "customers_id_seq s + 1 \<notin> c_id ` set (customers_tbl s)"
    by (auto simp: list_all_iff)
  with f show ?thesis by (simp add: upsert_customer_def Let_def)
qed


lemma set_name_comp [simp]:
  "c_email \<circ> set_name e n = c_email" "c_id \<circ> set_name e n = c_id"
  by (simp_all add: fun_eq_iff)

lemma image_set_name [simp]:
  "c_id ` set_name e n ` A = c_id ` A"
  by (simp add: image_image)

lemma store_ok_seq:
  assumes "store_ok s" and "customers_id_seq s \<le> a" and "tickets_id_seq s \<le> b"
  shows "store_ok (s\<lparr>customers_id_seq := a, tickets_id_seq := b\<rparr>)"
  using assms by (fastforce simp: store_ok_def list_all_iff)

lemma upsert_customer_ok:
  assumes ok: "store_ok s"
  shows "\<exists>s1 cid. upsert_customer s e n = (s1, Inr cid) \<and> store_ok s1
           \<and> cid \<in> c_id ` set (customers_tbl s1)
           \<and> tickets_tbl s1 = tickets_tbl s \<and> tickets_id_seq s1 = tickets_id_seq s
           \<and> customers_id_seq s1 = customers_id_seq s + 1
           \<and> customers_tbl s1 =
               (if e \<in> c_email ` set (customers_tbl s)
                then map (set_name e n) (customers_tbl s)
                else customers_tbl s @ [\<lparr>c_id = cid, c_email = e, c_name = n\<rparr>])"
proof (cases "e \<in> c_email ` set (customers_tbl s)")
  case True
  then obtain c where c: "c \<in> set (customers_tbl s)" "c_email c = e" by auto
  from ok have d: "distinct (map c_email (customers_tbl s))" by (simp add: store_ok_def)
  let ?s1 = "s\<lparr>customers_id_seq := customers_id_seq s + 1,
              customers_tbl := map (set_name e n) (customers_tbl s)\<rparr>"
  have "store_ok ?s1" using ok by (fastforce simp: store_ok_def list_all_iff)
  moreover have "c_id c \<in> c_id ` set (customers_tbl ?s1)" using c(1) by force
  ultimately show ?thesis
    using upsert_customer_existing [OF c d, of n] True by simp
next
  case False
  from ok have b: "list_all (\<lambda>c. c_id c \<le> customers_id_seq s) (customers_tbl s)"
    by (simp add: store_ok_def)
  let ?cid = "customers_id_seq s + 1"
  let ?s1 = "s\<lparr>customers_id_seq := ?cid,
              customers_tbl := customers_tbl s @ [\<lparr>c_id = ?cid, c_email = e, c_name = n\<rparr>]\<rparr>"
  have "store_ok ?s1" using ok False by (fastforce simp: store_ok_def list_all_iff)
  then show ?thesis
    using upsert_customer_new [OF False b, of n] False by simp
qed

lemma insert_ticket_ok:
  assumes ok: "store_ok s1" and cid: "cid \<in> c_id ` set (customers_tbl s1)"
    and ins: "insert_ticket C now s1 cid raw sm cat pr sc = (s2, res)"
  shows "customers_tbl s2 = customers_tbl s1 \<and> customers_id_seq s2 = customers_id_seq s1
         \<and> tickets_id_seq s1 \<le> tickets_id_seq s2
         \<and> (case res of
               Inl e \<Rightarrow> tickets_tbl s2 = tickets_tbl s1
             | Inr tid \<Rightarrow>
                 tickets_tbl s2 = tickets_tbl s1 @
                   [\<lparr> t_id = tid, t_customer_id = cid, t_raw_content = raw, t_summary = sm,
                      t_category = cat, t_priority = pr, t_sentiment_score = sc,
                      t_created_at = now \<rparr>]
                 \<and> cat \<in> set category_enum \<and> pr \<in> set priority_enum)
         \<and> store_ok s2"
proof -
  let ?tid = "tickets_id_seq s1 + 1"
  from ok have fresh: "?tid \<notin> t_id ` set (tickets_tbl s1)"
    by (auto simp: store_ok_def list_all_iff)
  let ?row = "\<lparr> t_id = ?tid, t_customer_id = cid, t_raw_content = raw, t_summary = sm,
                t_category = cat, t_priority = pr, t_sentiment_score = sc, t_created_at = now \<rparr>"
  have ok1: "store_ok (s1\<lparr>tickets_id_seq := ?tid\<rparr>)"
    using ok by (fastforce simp: store_ok_def list_all_iff)
  have ok2: "store_ok (s1\<lparr>tickets_id_seq := ?tid, tickets_tbl := tickets_tbl s1 @ [?row]\<rparr>)"
    using ok cid fresh by (fastforce simp: store_ok_def list_all_iff)
  from ins fresh cid ok ok1 ok2 show ?thesis
    by (auto simp: insert_ticket_def Let_def split: if_splits)
qed


lemma process_single_ticket_run:
  assumes ok: "store_ok s"
    and ex: "extract_customer_info U tc = Inr r"
    and run: "process_single_ticket U agent C now s tc = (s', res)"
  shows "store_ok s' \<and>
         (case res of
            Inl err \<Rightarrow> customers_tbl s' = customers_tbl s \<and> tickets_tbl s' = tickets_tbl s
          | Inr tid \<Rightarrow>
              (\<exists>cid out. agent (prompt tc) = Inr out
                 \<and> cid \<in> c_id ` set (customers_tbl s')
                 \<and> tickets_tbl s' = tickets_tbl s @
                     [\<lparr> t_id = tid, t_customer_id = cid, t_raw_content = tc,
                        t_summary = out_summary out, t_category = out_category out,
                        t_priority = out_priority out,
                        t_sentiment_score = out_sentiment_score out, t_created_at = now \<rparr>]
                 \<and> (email r \<in> c_email ` set (customers_tbl s) \<longrightarrow>
                      customers_tbl s' = map (set_name (email r) (name r)) (customers_tbl s))
                 \<and> (email r \<notin> c_email ` set (customers_tbl s) \<longrightarrow>
                      customers_tbl s' = customers_tbl s @
                             [\<lparr>c_id = cid, c_email = email r, c_name = name r\<rparr>])))"
proof (cases "agent (prompt tc)")
  case (Inl err)
  with ex run ok show ?thesis
    by (auto simp: process_single_ticket_def prompt_def)
next
  case (Inr out)
  from upsert_customer_ok [OF ok, of "email r" "name r"]
  obtain s1 cid where up: "upsert_customer s (email r) (name r) = (s1, Inr cid)"
    and ok1: "store_ok s1" and cid: "cid \<in> c_id ` set (customers_tbl s1)"
    and t1: "tickets_tbl s1 = tickets_tbl s" "tickets_id_seq s1 = tickets_id_seq s"
    and q1: "customers_id_seq s1 = customers_id_seq s + 1"
    and c1: "customers_tbl s1 =
               (if email r \<in> c_email ` set (customers_tbl s)
                then map (set_name (email r) (name r)) (customers_tbl s)
                else customers_tbl s @ [\<lparr>c_id = cid, c_email = email r, c_name = name r\<rparr>])"
    by blast
  obtain s2 r2 where ins: "insert_ticket C now s1 cid tc (out_summary out) (out_category out)
      (out_priority out) (out_sentiment_score out) = (s2, r2)"
    by (cases "insert_ticket C now s1 cid tc (out_summary out) (out_category out)
      (out_priority out) (out_sentiment_score out)") auto
  from insert_ticket_ok [OF ok1 cid ins]
  have c2: "customers_tbl s2 = customers_tbl s1" and q2: "customers_id_seq s2 = customers_id_seq s1"
    and q3: "tickets_id_seq s1 \<le> tickets_id_seq s2" and ok2: "store_ok s2"
    and r2: "case r2 of
               Inl e \<Rightarrow> tickets_tbl s2 = tickets_tbl s1
             | Inr tid \<Rightarrow>
                 tickets_tbl s2 = tickets_tbl s1 @
                   [\<lparr> t_id = tid, t_customer_id = cid, t_raw_content = tc,
                      t_summary = out_summary out, t_category = out_category out,
                      t_priority = out_priority out,
                      t_sentiment_score = out_sentiment_score out, t_created_at = now \<rparr>]
                 \<and> out_category out \<in> set category_enum \<and> out_priority out \<in> set priority_enum"
    by simp_all
  from ex Inr up ins run
  have tr: "(s', res) = (case (s2, r2) of
        (s', Inr x) \<Rightarrow> (s', Inr x)
      | (s', Inl e) \<Rightarrow>
          (s\<lparr>customers_id_seq := customers_id_seq s', tickets_id_seq := tickets_id_seq s'\<rparr>, Inl e))"
    by (simp add: process_single_ticket_def prompt_def transaction_def)
  show ?thesis
  proof (cases r2)
    case (Inl e)
    with tr have s': "s' = s\<lparr>customers_id_seq := customers_id_seq s2, tickets_id_seq := tickets_id_seq s2\<rparr>"
      and res: "res = Inl e" by simp_all
    from q1 q2 q3 t1 have "customers_id_seq s \<le> customers_id_seq s2" "tickets_id_seq s \<le> tickets_id_seq s2"
      by simp_all
    from store_ok_seq [OF ok this] s' res show ?thesis by simp
  next
    case (Inr tid)
    with tr have s': "s' = s2" and res: "res = Inr tid" by simp_all
    from cid c2 s' have cid': "cid \<in> c_id ` set (customers_tbl s')" by simp
    from r2 Inr t1 s' have tk: "tickets_tbl s' = tickets_tbl s @
                     [\<lparr> t_id = tid, t_customer_id = cid, t_raw_content = tc,
                        t_summary = out_summary out, t_category = out_category out,
                        t_priority = out_priority out,
                        t_sentiment_score = out_sentiment_score out, t_created_at = now \<rparr>]"
      by simp
    from c1 c2 s' have cu: "email r \<in> c_email ` set (customers_tbl s) \<longrightarrow>
                      customers_tbl s' = map (set_name (email r) (name r)) (customers_tbl s)"
      and cu': "email r \<notin> c_email ` set (customers_tbl s) \<longrightarrow>
                      customers_tbl s' = customers_tbl s @
                             [\<lparr>c_id = cid, c_email = email r, c_name = name r\<rparr>]"
      by simp_all
    from \<open>agent (prompt tc) = Inr out\<close> cid' tk cu cu'
    have "\<exists>cid out. agent (prompt tc) = Inr out
                 \<and> cid \<in> c_id ` set (customers_tbl s')
                 \<and> tickets_tbl s' = tickets_tbl s @
                     [\<lparr> t_id = tid, t_customer_id = cid, t_raw_content = tc,
                        t_summary = out_summary out, t_category = out_category out,
                        t_priority = out_priority out,
                        t_sentiment_score = out_sentiment_score out, t_created_at = now \<rparr>]
                 \<and> (email r \<in> c_email ` set (customers_tbl s) \<longrightarrow>
                      customers_tbl s' = map (set_name (email r) (name r)) (customers_tbl s))
                 \<and> (email r \<notin> c_email ` set (customers_tbl s) \<longrightarrow>
                      customers_tbl s' = customers_tbl s @
                             [\<lparr>c_id = cid, c_email = email r, c_name = name r\<rparr>])"
      by blast
    with ok2 s' res show ?thesis by simp
  qed
qed


lemma filter_set_name:
  "filter (\<lambda>c. c_email c = e) (map (set_name e n) xs) = map (set_name e n) (filter (\<lambda>c. c_email c = e) xs)"
  by (induction xs) simp_all

lemma customer_after_process:
  assumes ok: "store_ok s"
    and ex: "extract_customer_info U tc = Inr r"
    and run: "process_single_ticket U agent C now s tc = (s', Inr tid)"
  shows "\<exists>c. filter (\<lambda>c. c_email c = email r) (customers_tbl s') = [c] \<and> c_name c = name r"
proof (cases "email r \<in> c_email ` set (customers_tbl s)")
  case True
  with process_single_ticket_run [OF ok ex run]
  have cu: "customers_tbl s' = map (set_name (email r) (name r)) (customers_tbl s)"
    by simp blast
  from True obtain c where c: "c \<in> set (customers_tbl s)" "c_email c = email r" by auto
  from ok have "distinct (map c_email (customers_tbl s))" by (simp add: store_ok_def)
  from filter_distinct_key [OF this c(1)] c(2)
  have "filter (\<lambda>c. c_email c = email r) (customers_tbl s) = [c]" by simp
  with cu c(2) show ?thesis
    by (simp add: filter_set_name set_name_def)
next
  case False
  with process_single_ticket_run [OF ok ex run]
  have "\<exists>cid. customers_tbl s' =
          customers_tbl s @ [\<lparr>c_id = cid, c_email = email r, c_name = name r\<rparr>]"
    by simp blast
  then obtain cid where cu: "customers_tbl s' =
          customers_tbl s @ [\<lparr>c_id = cid, c_email = email r, c_name = name r\<rparr>]" ..
  from False have "\<forall>c \<in> set (customers_tbl s). c_email c \<noteq> email r"
    by (metis imageI)
  then have "filter (\<lambda>c. c_email c = email r) (customers_tbl s) = []"
    by (simp add: filter_empty_conv)
  with cu show ?thesis by simp
qed

text \<open>
  C1: the persistence step is atomic. For every store that satisfies the schema's
  constraints and every outcome of the call: when the call fails (the agent raises, or a
  statement of the transaction does, such as the ticket insert after the customer upsert),
  the rows of both tables are what they were, so no customer row created by the upsert
  survives; when it succeeds, exactly one ticket row is added (the one whose id is
  returned) and one customer row, or none when the e-mail was already present; and every
  ticket of the resulting store references an existing customer.
\<close>

theorem process_single_ticket_atomic:
  assumes "store_ok s"
    and "process_single_ticket U agent C now s tc = (s', res)"
  shows "(\<forall>err. res = Inl err \<longrightarrow>
            customers_tbl s' = customers_tbl s \<and> tickets_tbl s' = tickets_tbl s)
       \<and> (\<forall>tid. res = Inr tid \<longrightarrow>
            (\<exists>row. tickets_tbl s' = tickets_tbl s @ [row] \<and> t_id row = tid
                   \<and> t_raw_content row = tc)
            \<and> (\<exists>r. extract_customer_info U tc = Inr r
                   \<and> length (customers_tbl s') = length (customers_tbl s)
                        + (if email r \<in> c_email ` set (customers_tbl s) then 0 else 1)))
       \<and> list_all (\<lambda>t. t_customer_id t \<in> c_id ` set (customers_tbl s')) (tickets_tbl s')
       \<and> store_ok s'"
proof -
  obtain r where ex: "extract_customer_info U tc = Inr r"
    by (simp add: extract_customer_info_Inr)
  note run = process_single_ticket_run [OF assms(1) ex assms(2)]
  then have ok': "store_ok s'" by simp
  have fail: "\<forall>err. res = Inl err \<longrightarrow>
            customers_tbl s' = customers_tbl s \<and> tickets_tbl s' = tickets_tbl s"
    using run by auto
  have succ: "\<forall>tid. res = Inr tid \<longrightarrow>
            (\<exists>row. tickets_tbl s' = tickets_tbl s @ [row] \<and> t_id row = tid
                   \<and> t_raw_content row = tc)
            \<and> (\<exists>r. extract_customer_info U tc = Inr r
                   \<and> length (customers_tbl s') = length (customers_tbl s)
                        + (if email r \<in> c_email ` set (customers_tbl s) then 0 else 1))"
  proof (intro allI impI)
    fix tid assume "res = Inr tid"
    with run have tk: "\<exists>row. tickets_tbl s' = tickets_tbl s @ [row] \<and> t_id row = tid
                   \<and> t_raw_content row = tc"
      by simp (metis ticket.select_convs(1) ticket.select_convs(3))
    from \<open>res = Inr tid\<close> run
    have "length (customers_tbl s') = length (customers_tbl s)
                        + (if email r \<in> c_email ` set (customers_tbl s) then 0 else 1)"
      by (cases "email r \<in> c_email ` set (customers_tbl s)") auto
    with tk ex show "(\<exists>row. tickets_tbl s' = tickets_tbl s @ [row] \<and> t_id row = tid
                   \<and> t_raw_content row = tc)
            \<and> (\<exists>r. extract_customer_info U tc = Inr r
                   \<and> length (customers_tbl s') = length (customers_tbl s)
                        + (if email r \<in> c_email ` set (customers_tbl s) then 0 else 1))"
      by blast
  qed
  from ok' have "list_all (\<lambda>t. t_customer_id t \<in> c_id ` set (customers_tbl s')) (tickets_tbl s')"
    by (simp add: store_ok_def)
  with fail succ ok' show ?thesis by blast
qed

theorem process_single_ticket_atomic_witness:
  "store_ok store0
   \<and> fst (upsert_customer store0 (str ''al@x.io'') (str ''Al'')) =
       \<lparr> customers_tbl = [\<lparr>c_id = 1, c_email = str ''al@x.io'', c_name = str ''Al''\<rparr>],
         tickets_tbl = [], customers_id_seq = 1, tickets_id_seq = 0 \<rparr>
   \<and> process_single_ticket ascii_db (agent_stub (str ''spam'')) (\<lambda>row. True) 1000 store0
         (str ''Email: al@x.io\<newline>Name: Al'') =
       (\<lparr> customers_tbl = [], tickets_tbl = [], customers_id_seq = 1, tickets_id_seq = 0 \<rparr>,
        Inl InvalidTextRepresentation)
   \<and> (\<exists>s' row. process_single_ticket ascii_db (agent_stub (str ''billing'')) (\<lambda>row. True) 1000
          store0 (str ''Email: al@x.io\<newline>Name: Al'') = (s', Inr 1)
        \<and> tickets_tbl s' = tickets_tbl store0 @ [row] \<and> t_id row = 1
        \<and> length (customers_tbl s') = 1
        \<and> list_all (\<lambda>t. t_customer_id t \<in> c_id ` set (customers_tbl s')) (tickets_tbl s'))"
proof -
  let ?t = "str ''Email: al@x.io\<newline>Name: Al''"
  have ok: "store_ok store0" by (simp add: store_ok_def store0_def)
  have up: "fst (upsert_customer store0 (str ''al@x.io'') (str ''Al'')) =
       \<lparr> customers_tbl = [\<lparr>c_id = 1, c_email = str ''al@x.io'', c_name = str ''Al''\<rparr>],
         tickets_tbl = [], customers_id_seq = 1, tickets_id_seq = 0 \<rparr>"
    by code_simp
  have failed: "process_single_ticket ascii_db (agent_stub (str ''spam'')) (\<lambda>row. True) 1000 store0 ?t =
       (\<lparr> customers_tbl = [], tickets_tbl = [], customers_id_seq = 1, tickets_id_seq = 0 \<rparr>,
        Inl InvalidTextRepresentation)"
    by code_simp
  let ?run = "process_single_ticket ascii_db (agent_stub (str ''billing'')) (\<lambda>row. True) 1000
          store0 ?t"
  define s' where "s' = fst ?run"
  have "snd ?run = Inr 1" by code_simp
  then have run: "?run = (s', Inr 1)" by (simp add: s'_def prod_eq_iff)
  have ex: "extract_customer_info ascii_db ?t = Inr \<lparr>email = str ''al@x.io'', name = str ''Al''\<rparr>"
    by code_simp
  from process_single_ticket_atomic [OF ok run] ex
  have "\<exists>row. tickets_tbl s' = tickets_tbl store0 @ [row] \<and> t_id row = 1"
    and "length (customers_tbl s') = 1"
    and "list_all (\<lambda>t. t_customer_id t \<in> c_id ` set (customers_tbl s')) (tickets_tbl s')"
    by (auto simp: store0_def)
  with ok up failed run show ?thesis by blast
qed

text \<open>
  C3: the upsert is keyed on the e-mail and the last write wins. When two tickets that
  carry the same e-mail are persisted one after the other, the store holds exactly one
  customer row with that e-mail after each call, with the first ticket's name after the
  first call and the second ticket's name after the second.
\<close>

theorem upsert_last_write_wins:
  assumes "store_ok s"
    and "extract_customer_info U t1 = Inr r1" and "extract_customer_info U t2 = Inr r2"
    and "email r1 = email r2"
    and "process_single_ticket U agent1 C now1 s t1 = (s1, Inr id1)"
    and "process_single_ticket U agent2 C now2 s1 t2 = (s2, Inr id2)"
  shows "\<exists>c1 c2. filter (\<lambda>c. c_email c = email r2) (customers_tbl s1) = [c1]
            \<and> c_name c1 = name r1
            \<and> filter (\<lambda>c. c_email c = email r2) (customers_tbl s2) = [c2]
            \<and> c_name c2 = name r2"
proof -
  from process_single_ticket_run [OF assms(1,2,5)] have ok1: "store_ok s1" by simp
  from customer_after_process [OF assms(1,2,5)] assms(4)
  obtain c1 where "filter (\<lambda>c. c_email c = email r2) (customers_tbl s1) = [c1]"
    "c_name c1 = name r1" by auto
  moreover from customer_after_process [OF ok1 assms(3,6)]
  obtain c2 where "filter (\<lambda>c. c_email c = email r2) (customers_tbl s2) = [c2]"
    "c_name c2 = name r2" by auto
  ultimately show ?thesis by blast
qed

theorem upsert_last_write_wins_witness:
  "\<exists>s1 s2 c1 c2.
     process_single_ticket ascii_db (agent_stub (str ''billing'')) (\<lambda>row. True) 1000 store0
       (str ''Email: al@x.io\<newline>Name: Al'') = (s1, Inr 1)
     \<and> process_single_ticket ascii_db (agent_stub (str ''general'')) (\<lambda>row. True) 2000 s1
       (str ''Name: Alan Smith\<newline>Email: al@x.io'') = (s2, Inr 2)
     \<and> filter (\<lambda>c. c_email c = str ''al@x.io'') (customers_tbl s1) = [c1]
     \<and> c_name c1 = str ''Al''
     \<and> filter (\<lambda>c. c_email c = str ''al@x.io'') (customers_tbl s2) = [c2]
     \<and> c_name c2 = str ''Alan Smith''"
proof -
  let ?t1 = "str ''Email: al@x.io\<newline>Name: Al''"
  let ?t2 = "str ''Name: Alan Smith\<newline>Email: al@x.io''"
  have ok: "store_ok store0" by (simp add: store_ok_def store0_def)
  have e1: "extract_customer_info ascii_db ?t1 = Inr \<lparr>email = str ''al@x.io'', name = str ''Al''\<rparr>"
    by code_simp
  have e2: "extract_customer_info ascii_db ?t2 =
      Inr \<lparr>email = str ''al@x.io'', name = str ''Alan Smith''\<rparr>"
    by code_simp
  let ?run1 = "process_single_ticket ascii_db (agent_stub (str ''billing'')) (\<lambda>row. True) 1000
      store0 ?t1"
  let ?run2 = "process_single_ticket ascii_db (agent_stub (str ''general'')) (\<lambda>row. True) 2000
      (fst ?run1) ?t2"
  define s1 where "s1 = fst ?run1"
  define s2 where "s2 = fst ?run2"
  have "snd ?run1 = Inr 1" by code_simp
  then have r1: "?run1 = (s1, Inr 1)" by (simp add: s1_def prod_eq_iff)
  have "snd ?run2 = Inr 2" by code_simp
  then have r2: "process_single_ticket ascii_db (agent_stub (str ''general'')) (\<lambda>row. True) 2000
      s1 ?t2 = (s2, Inr 2)" by (simp add: s1_def s2_def prod_eq_iff)
  from upsert_last_write_wins [OF ok e1 e2 _ r1 r2] r1 r2 show ?thesis
    by simp
qed

section \<open>Properties of format\_sentiment and the sentiment tiers\<close>

lemma bit_length_bounds:
  "0 < n \<Longrightarrow> 1 \<le> bit_length n \<and> 2 ^ nat (bit_length n - 1) \<le> n \<and> n < 2 ^ nat (bit_length n)"
proof (induction n rule: bit_length.induct)
  case (1 n)
  from "1.prems" have eq: "bit_length n = 1 + bit_length (n div 2)"
    by (subst bit_length.simps) simp
  show ?case
  proof (cases "n div 2 \<le> 0")
    case True
    with "1.prems" have "n = 1" by linarith
    then show ?thesis by (simp add: bit_length.simps)
  next
    case False
    then have pos: "0 < n div 2" by simp
    with "1.prems" "1.IH" have ih: "1 \<le> bit_length (n div 2)"
      "2 ^ nat (bit_length (n div 2) - 1) \<le> n div 2"
      "n div 2 < 2 ^ nat (bit_length (n div 2))" by simp_all
    from ih(1) have s: "nat (bit_length (n div 2)) = Suc (nat (bit_length (n div 2) - 1))"
      by simp
    from ih(2) have "2 * 2 ^ nat (bit_length (n div 2) - 1) \<le> n" by linarith
    then have lo: "2 ^ nat (bit_length n - 1) \<le> n" by (simp add: eq s)
    from ih(3) have "n < 2 * 2 ^ nat (bit_length (n div 2))" by linarith
    moreover from ih(1) have "nat (bit_length n) = Suc (nat (bit_length (n div 2)))"
      by (simp add: eq)
    ultimately have "n < 2 ^ nat (bit_length n)" by simp
    with lo ih(1) eq show ?thesis by simp
  qed
qed

lemma floor_log2_le:
  assumes "0 < a" and "a \<le> 2 ^ k"
  shows "floor_log2 a \<le> int k"
proof -
  obtain p q where pq: "quotient_of a = (p, q)" by (cases "quotient_of a") auto
  then have q: "0 < q" and a: "a = of_int p / of_int q"
    by (simp_all add: quotient_of_denom_pos quotient_of_div)
  with assms(1) have p: "0 < p" by (simp add: zero_less_divide_iff)
  let ?d = "bit_length p - bit_length q"
  from pq have fl: "floor_log2 a \<le> ?d" by (simp add: floor_log2_def Let_def)
  from a assms(2) q have "of_int p \<le> (2 ^ k :: rat) * of_int q" by (simp add: pos_divide_le_eq)
  then have "rat_of_int p \<le> rat_of_int (2 ^ k * q)" by simp
  then have pk: "p \<le> 2 ^ k * q" by (simp only: of_int_le_iff)
  from bit_length_bounds [OF p] have bp: "1 \<le> bit_length p" "2 ^ nat (bit_length p - 1) \<le> p"
    by simp_all
  from bit_length_bounds [OF q] have bq: "1 \<le> bit_length q" "q < 2 ^ nat (bit_length q)"
    by simp_all
  from bp(2) pk have "2 ^ nat (bit_length p - 1) \<le> 2 ^ k * q" by (rule order_trans)
  moreover from bq(2) have "2 ^ k * q < 2 ^ k * 2 ^ nat (bit_length q)" by simp
  ultimately have "(2::int) ^ nat (bit_length p - 1) < 2 ^ k * 2 ^ nat (bit_length q)"
    by (rule le_less_trans)
  then have "(2::int) ^ nat (bit_length p - 1) < 2 ^ (k + nat (bit_length q))"
    by (simp add: power_add)
  then have "nat (bit_length p - 1) < k + nat (bit_length q)"
    by simp
  with bp(1) bq(1) have "?d \<le> int k" by linarith
  with fl show ?thesis by simp
qed

lemma round_half_even_bounds:
  assumes "0 \<le> q"
  shows "0 \<le> round_half_even q" and "of_int (round_half_even q) \<le> q + 1"
proof -
  from assms have f: "0 \<le> \<lfloor>q\<rfloor>" by simp
  have c: "round_half_even q = \<lfloor>q\<rfloor> \<or> round_half_even q = \<lfloor>q\<rfloor> + 1"
    by (simp add: round_half_even_def Let_def)
  with f show "0 \<le> round_half_even q" by auto
  have fl: "rat_of_int \<lfloor>q\<rfloor> \<le> q" by (rule of_int_floor_le)
  from c show "of_int (round_half_even q) \<le> q + 1"
  proof
    assume r: "round_half_even q = \<lfloor>q\<rfloor>"
    from fl have "rat_of_int \<lfloor>q\<rfloor> \<le> q + 1" by linarith
    then show ?thesis by (simp only: r)
  next
    assume r: "round_half_even q = \<lfloor>q\<rfloor> + 1"
    have "rat_of_int (\<lfloor>q\<rfloor> + 1) \<le> q + 1" by simp
    then show ?thesis by (simp only: r)
  qed
qed

lemma round_double_small:
  assumes "0 \<le> a" and "a \<le> 128"
  shows "\<exists>y. round_double a = Finite y \<and> 0 \<le> y"
proof (cases "a = 0")
  case True
  then show ?thesis by (simp add: round_double_def)
next
  case False
  with assms have pos: "0 < a" by simp
  define e where "e = max (floor_log2 a - 52) (- 1074)"
  define y where "y = of_int (round_half_even (a / 2 powi e)) * (2::rat) powi e"
  have p2: "0 < (2::rat) powi e" by simp
  from pos p2 have q: "0 \<le> a / 2 powi e" by simp
  from assms(2) have "a \<le> 2 ^ 7" by simp
  from floor_log2_le [OF pos this] have "e \<le> 0" by (simp add: e_def)
  then have "(2::rat) powi e \<le> 2 powi 0" by (intro power_int_increasing) simp_all
  then have p1: "(2::rat) powi e \<le> 1" by simp
  from round_half_even_bounds [OF q] p2 have y0: "0 \<le> y"
    and "y \<le> (a / 2 powi e + 1) * 2 powi e"
    by (simp_all add: y_def)
  moreover from p2 have "(a / 2 powi e + 1) * 2 powi e = a + 2 powi e"
    by (simp add: distrib_right)
  ultimately have "y \<le> a + 2 powi e" by simp
  with assms(2) p1 have "y \<le> 129" by simp
  moreover have "(129::rat) < 2 powi 1024" by simp
  ultimately have "\<not> 2 powi 1024 \<le> y" by simp
  with pos y0 False show ?thesis
    by (simp add: round_double_def Let_def e_def [symmetric] y_def [symmetric])
qed

lemma float_lit_100: "float_lit 100 = Finite 100"
  by code_simp

lemma format_sentiment_unit:
  assumes "0 \<le> x" and "x \<le> 1"
  shows "\<exists>y. fmul (Finite x) (float_lit 100) = Finite y \<and> 0 \<le> y
           \<and> format_sentiment (Finite x) =
               Inr (str_of_int \<lfloor>y\<rfloor> @ str ''% '' @ get_sentiment_emoji (Finite x))"
proof -
  from assms have "0 \<le> x * 100" "x * 100 \<le> 128" by simp_all
  from round_double_small [OF this] obtain y where y: "round_double (x * 100) = Finite y" "0 \<le> y"
    by blast
  then have "fmul (Finite x) (float_lit 100) = Finite y" by (simp add: float_lit_100)
  with y(2) show ?thesis by (simp add: format_sentiment_def)
qed


lemma round_half_even_int_bounds:
  shows "of_int m \<le> q \<Longrightarrow> m \<le> round_half_even q"
    and "q \<le> of_int m \<Longrightarrow> round_half_even q \<le> m"
proof -
  have c: "round_half_even q = \<lfloor>q\<rfloor> \<or> (round_half_even q = \<lfloor>q\<rfloor> + 1 \<and> of_int \<lfloor>q\<rfloor> \<noteq> q)"
    by (auto simp: round_half_even_def Let_def)
  { assume "of_int m \<le> q"
    then have "m \<le> \<lfloor>q\<rfloor>" by (simp add: le_floor_iff)
    with c show "m \<le> round_half_even q" by auto }
  { assume a: "q \<le> of_int m"
    then have f: "\<lfloor>q\<rfloor> \<le> m" by (simp add: floor_le_iff)
    show "round_half_even q \<le> m"
    proof (cases "of_int \<lfloor>q\<rfloor> = q")
      case True
      with c f show ?thesis by auto
    next
      case False
      with a have "q < of_int m \<or> q = of_int m" by linarith
      with False have "q < of_int m" by auto
      then have "\<lfloor>q\<rfloor> < m" by (simp add: floor_less_iff)
      with c show ?thesis by auto
    qed }
qed

lemma round_double_between:
  assumes "0 < a" and "a \<le> 128" and "round_double a = Finite y"
  shows "of_int k \<le> a \<Longrightarrow> of_int k \<le> y" and "a \<le> of_int k \<Longrightarrow> y \<le> of_int k"
proof -
  define e where "e = max (floor_log2 a - 52) (- 1074)"
  define n where "n = round_half_even (a / 2 powi e)"
  have p2: "0 < (2::rat) powi e" by simp
  from assms(2) have "a \<le> 2 ^ 7" by simp
  from floor_log2_le [OF assms(1) this] have e0: "e \<le> 0" by (simp add: e_def)
  then have pe: "(2::rat) powi e = 1 / 2 ^ nat (- e)"
    by (simp add: power_int_def field_simps)
  from assms(1,3) have y: "y = of_int n * 2 powi e"
    by (simp add: round_double_def Let_def e_def [symmetric] n_def [symmetric] split: if_splits)
  have scale: "of_int k / (2::rat) powi e = of_int (k * 2 ^ nat (- e))" for k
    by (simp add: pe)
  { assume "of_int k \<le> a"
    with p2 have "of_int k / 2 powi e \<le> a / 2 powi e" by (simp add: divide_right_mono)
    then have "of_int (k * 2 ^ nat (- e)) \<le> a / 2 powi e" by (simp only: scale)
    from round_half_even_int_bounds(1) [OF this] have "k * 2 ^ nat (- e) \<le> n" by (simp add: n_def)
    then have "rat_of_int (k * 2 ^ nat (- e)) \<le> of_int n" by (simp only: of_int_le_iff)
    then have "of_int k / 2 powi e \<le> rat_of_int n" by (simp only: scale)
    with p2 show "of_int k \<le> y" by (simp add: y pos_divide_le_eq) }
  { assume "a \<le> of_int k"
    with p2 have "a / 2 powi e \<le> of_int k / 2 powi e" by (simp add: divide_right_mono)
    then have "a / 2 powi e \<le> of_int (k * 2 ^ nat (- e))" by (simp only: scale)
    from round_half_even_int_bounds(2) [OF this] have "n \<le> k * 2 ^ nat (- e)" by (simp add: n_def)
    then have "of_int n \<le> rat_of_int (k * 2 ^ nat (- e))" by (simp only: of_int_le_iff)
    then have "rat_of_int n \<le> of_int k / 2 powi e" by (simp only: scale)
    with p2 show "y \<le> of_int k" by (simp add: y pos_le_divide_eq) }
qed


lemma float_lit_04: "float_lit (2 / 5) = Finite (3602879701896397 / 9007199254740992)"
  by code_simp

lemma float_lit_06: "float_lit (3 / 5) = Finite (5404319552844595 / 9007199254740992)"
  by code_simp

lemma float_lit_039: "float_lit (39 / 100) = Finite (3512807709348987 / 9007199254740992)"
  by code_simp

lemma float_lit_059: "float_lit (59 / 100) = Finite (5314247560297185 / 9007199254740992)"
  by code_simp


lemma format_sentiment_rounded:
  assumes "0 \<le> x" and "x \<le> 1"
  shows "\<exists>y. round_double (x * 100) = Finite y \<and> 0 \<le> y
           \<and> format_sentiment (Finite x) =
               Inr (str_of_int \<lfloor>y\<rfloor> @ str ''% '' @ get_sentiment_emoji (Finite x))
           \<and> \<lfloor>x * 100\<rfloor> \<le> \<lfloor>y\<rfloor> \<and> \<lfloor>y\<rfloor> \<le> \<lfloor>x * 100\<rfloor> + 1"
proof -
  from assms have r: "0 \<le> x * 100" "x * 100 \<le> 128" by simp_all
  from round_double_small [OF r] obtain y where y: "round_double (x * 100) = Finite y" "0 \<le> y"
    by blast
  then have "fmul (Finite x) (float_lit 100) = Finite y" by (simp add: float_lit_100)
  with y(2) have f: "format_sentiment (Finite x) =
               Inr (str_of_int \<lfloor>y\<rfloor> @ str ''% '' @ get_sentiment_emoji (Finite x))"
    by (simp add: format_sentiment_def)
  have b: "\<lfloor>x * 100\<rfloor> \<le> \<lfloor>y\<rfloor> \<and> \<lfloor>y\<rfloor> \<le> \<lfloor>x * 100\<rfloor> + 1"
  proof (cases "x * 100 = 0")
    case True
    with y(1) have "y = 0" by (simp add: round_double_def)
    with True show ?thesis by simp
  next
    case False
    with r(1) have pos: "0 < x * 100" by simp
    have "rat_of_int \<lfloor>x * 100\<rfloor> \<le> x * 100" by (rule of_int_floor_le)
    from round_double_between(1) [OF pos r(2) y(1) this] have lo: "\<lfloor>x * 100\<rfloor> \<le> \<lfloor>y\<rfloor>"
      by (simp add: le_floor_iff)
    have "x * 100 \<le> rat_of_int \<lceil>x * 100\<rceil>" by (rule le_of_int_ceiling)
    from round_double_between(2) [OF pos r(2) y(1) this] have "\<lfloor>y\<rfloor> \<le> \<lceil>x * 100\<rceil>"
      by (simp add: floor_le_iff)
    moreover have "\<lceil>x * 100\<rceil> \<le> \<lfloor>x * 100\<rfloor> + 1" by linarith
    ultimately show ?thesis using lo by simp
  qed
  from y f b show ?thesis by blast
qed

text \<open>
  C6, as the claim states it, fails: the percentage is not the floor of \<open>score * 100\<close> read
  as a number. The literal \<open>0.15\<close> is a double slightly below \<open>15 / 100\<close>, a score in
  \<open>[0, 1]\<close>; a hundred times its value is below 15, with floor 14; the double product
  \<open>score * 100\<close> is rounded to the double \<open>15.0\<close>, and the function renders \<open>15%\<close>.
\<close>

theorem format_sentiment_floor_counterexample:
  "(0::rat) \<le> 5404319552844595 / 36028797018963968
   \<and> (5404319552844595 / 36028797018963968 :: rat) \<le> 1
   \<and> float_lit (15 / 100) = Finite (5404319552844595 / 36028797018963968)
   \<and> \<lfloor>5404319552844595 / 36028797018963968 * 100 :: rat\<rfloor> = 14
   \<and> format_sentiment (Finite (5404319552844595 / 36028797018963968)) =
       Inr (str ''15% '' @ emoji_negative)"
proof -
  have "float_lit (15 / 100) = Finite (5404319552844595 / 36028797018963968)" by code_simp
  moreover have "\<lfloor>5404319552844595 / 36028797018963968 * 100 :: rat\<rfloor> = 14"
    by (simp add: floor_eq_iff)
  moreover have "format_sentiment (Finite (5404319552844595 / 36028797018963968)) =
       Inr (str ''15% '' @ emoji_negative)"
  proof -
    have m: "fmul (Finite (5404319552844595 / 36028797018963968)) (float_lit 100) = Finite 15"
      by code_simp
    have d: "str_of_int 15 = str ''15''" by code_simp
    have e: "get_sentiment_emoji (Finite (5404319552844595 / 36028797018963968)) = emoji_negative"
      by (simp add: get_sentiment_emoji_def float_lit_04)
    show ?thesis unfolding format_sentiment_def m by (simp add: d e str_def)
  qed
  ultimately show ?thesis by simp
qed


text \<open>
  C6, amended: for every finite score in \<open>[0, 1]\<close>, format\_sentiment renders the decimal
  digits of \<open>floor(y)\<close>, a per cent sign, a space and the tier's indicator, where \<open>y\<close> is
  the double product \<open>score * 100\<close>, the exact product rounded to the nearest double; \<open>y\<close>
  is finite and not negative, and \<open>floor(y)\<close> is the floor of the exact product or one
  more. For every float the indicator and the colour follow the three tiers: below the
  double \<open>0.4\<close> negative and red, from \<open>0.4\<close> and below the double \<open>0.6\<close> neutral and
  yellow, otherwise positive and green. The literals \<open>0.39\<close>, \<open>0.40\<close>, \<open>0.59\<close> and \<open>0.60\<close>
  fall in the negative, neutral, neutral and positive tier.
\<close>

theorem format_sentiment_spec:
  "(0 \<le> x \<and> x \<le> 1 \<longrightarrow>
      (\<exists>y. round_double (x * 100) = Finite y \<and> 0 \<le> y
         \<and> format_sentiment (Finite x) =
             Inr (str_of_int \<lfloor>y\<rfloor> @ str ''% '' @ get_sentiment_emoji (Finite x))
         \<and> \<lfloor>x * 100\<rfloor> \<le> \<lfloor>y\<rfloor> \<and> \<lfloor>y\<rfloor> \<le> \<lfloor>x * 100\<rfloor> + 1))
   \<and> (flt score (float_lit (4 / 10)) \<longrightarrow>
        get_sentiment_emoji score = emoji_negative \<and> get_sentiment_color score = str ''red'')
   \<and> (\<not> flt score (float_lit (4 / 10)) \<and> flt score (float_lit (6 / 10)) \<longrightarrow>
        get_sentiment_emoji score = emoji_neutral \<and> get_sentiment_color score = str ''yellow'')
   \<and> (\<not> flt score (float_lit (4 / 10)) \<and> \<not> flt score (float_lit (6 / 10)) \<longrightarrow>
        get_sentiment_emoji score = emoji_positive \<and> get_sentiment_color score = str ''green'')
   \<and> get_sentiment_emoji (float_lit (39 / 100)) = emoji_negative
   \<and> get_sentiment_color (float_lit (39 / 100)) = str ''red''
   \<and> get_sentiment_emoji (float_lit (40 / 100)) = emoji_neutral
   \<and> get_sentiment_color (float_lit (40 / 100)) = str ''yellow''
   \<and> get_sentiment_emoji (float_lit (59 / 100)) = emoji_neutral
   \<and> get_sentiment_color (float_lit (59 / 100)) = str ''yellow''
   \<and> get_sentiment_emoji (float_lit (60 / 100)) = emoji_positive
   \<and> get_sentiment_color (float_lit (60 / 100)) = str ''green''"
proof -
  have a: "0 \<le> x \<and> x \<le> 1 \<longrightarrow>
      (\<exists>y. round_double (x * 100) = Finite y \<and> 0 \<le> y
         \<and> format_sentiment (Finite x) =
             Inr (str_of_int \<lfloor>y\<rfloor> @ str ''% '' @ get_sentiment_emoji (Finite x))
         \<and> \<lfloor>x * 100\<rfloor> \<le> \<lfloor>y\<rfloor> \<and> \<lfloor>y\<rfloor> \<le> \<lfloor>x * 100\<rfloor> + 1)"
    using format_sentiment_rounded by blast
  have b: "flt score (float_lit (4 / 10)) \<longrightarrow>
        get_sentiment_emoji score = emoji_negative \<and> get_sentiment_color score = str ''red''"
    and c: "\<not> flt score (float_lit (4 / 10)) \<and> flt score (float_lit (6 / 10)) \<longrightarrow>
        get_sentiment_emoji score = emoji_neutral \<and> get_sentiment_color score = str ''yellow''"
    and d: "\<not> flt score (float_lit (4 / 10)) \<and> \<not> flt score (float_lit (6 / 10)) \<longrightarrow>
        get_sentiment_emoji score = emoji_positive \<and> get_sentiment_color score = str ''green''"
    by (simp_all add: get_sentiment_emoji_def get_sentiment_color_def)
  have e4: "float_lit (40 / 100) = float_lit (4 / 10)" and e6: "float_lit (60 / 100) = float_lit (6 / 10)"
    by simp_all
  have p1: "flt (float_lit (39 / 100)) (float_lit (4 / 10))"
    by (simp add: float_lit_039 float_lit_04)
  have p2: "\<not> flt (float_lit (4 / 10)) (float_lit (4 / 10))" "flt (float_lit (4 / 10)) (float_lit (6 / 10))"
    by (simp_all add: float_lit_04 float_lit_06)
  have p3: "\<not> flt (float_lit (59 / 100)) (float_lit (4 / 10))" "flt (float_lit (59 / 100)) (float_lit (6 / 10))"
    by (simp_all add: float_lit_059 float_lit_04 float_lit_06)
  have p4: "\<not> flt (float_lit (6 / 10)) (float_lit (4 / 10))" "\<not> flt (float_lit (6 / 10)) (float_lit (6 / 10))"
    by (simp_all add: float_lit_04 float_lit_06)
  have pts: "get_sentiment_emoji (float_lit (39 / 100)) = emoji_negative"
    "get_sentiment_color (float_lit (39 / 100)) = str ''red''"
    "get_sentiment_emoji (float_lit (40 / 100)) = emoji_neutral"
    "get_sentiment_color (float_lit (40 / 100)) = str ''yellow''"
    "get_sentiment_emoji (float_lit (59 / 100)) = emoji_neutral"
    "get_sentiment_color (float_lit (59 / 100)) = str ''yellow''"
    "get_sentiment_emoji (float_lit (60 / 100)) = emoji_positive"
    "get_sentiment_color (float_lit (60 / 100)) = str ''green''"
    unfolding e4 e6 using p1 p2 p3 p4
    by (simp_all add: get_sentiment_emoji_def get_sentiment_color_def)
  show ?thesis by (intro conjI) (rule a b c d pts)+
qed

lemma round_double_057:
  "round_double (5134103575202365 / 9007199254740992 * 100)
     = Finite (8022036836253695 / 140737488355328)"
  by code_simp

theorem format_sentiment_spec_witness:
  "(0::rat) \<le> 5134103575202365 / 9007199254740992
   \<and> (5134103575202365 / 9007199254740992 :: rat) \<le> 1
   \<and> float_lit (57 / 100) = Finite (5134103575202365 / 9007199254740992)
   \<and> \<lfloor>5134103575202365 / 9007199254740992 * 100 :: rat\<rfloor> = 56
   \<and> format_sentiment (float_lit (57 / 100)) = Inr (str ''56% '' @ emoji_neutral)"
proof -
  let ?x = "5134103575202365 / 9007199254740992 :: rat"
  have r: "0 \<le> ?x \<and> ?x \<le> 1" by simp
  have l: "float_lit (57 / 100) = Finite ?x" by code_simp
  have e: "get_sentiment_emoji (Finite ?x) = emoji_neutral"
    by (simp add: get_sentiment_emoji_def float_lit_04 float_lit_06)
  have f: "\<lfloor>8022036836253695 / 140737488355328 :: rat\<rfloor> = 56" by (simp add: floor_eq_iff)
  have g: "\<lfloor>?x * 100\<rfloor> = 56" by (simp add: floor_eq_iff)
  have d: "str_of_int 56 = str ''56''" by code_simp
  from format_sentiment_spec [of ?x, THEN conjunct1, rule_format, OF r]
  obtain y where y: "round_double (?x * 100) = Finite y"
    and fs: "format_sentiment (Finite ?x) =
      Inr (str_of_int \<lfloor>y\<rfloor> @ str ''% '' @ get_sentiment_emoji (Finite ?x))"
    by (elim exE conjE)
  from y have "y = 8022036836253695 / 140737488355328" by (simp only: round_double_057 pyfloat.inject)
  with fs have "format_sentiment (Finite ?x) = Inr (str ''56'' @ str ''% '' @ emoji_neutral)"
    by (simp only: f d e)
  then have "format_sentiment (float_lit (57 / 100)) = Inr (str ''56% '' @ emoji_neutral)"
    by (simp only: l) (simp add: str_def)
  with r l g show ?thesis by (intro conjI) simp_all
qed


section \<open>Properties of truncate\_text\<close>

lemma truncate_text_short: "int (length s) \<le> n \<Longrightarrow> truncate_text s n = s"
  by (simp add: truncate_text_def)

lemma truncate_text_long:
  assumes "n < int (length s)" and "3 \<le> n"
  shows "truncate_text s n = take (nat (n - 3)) s @ str ''...''"
  using assms by (simp add: truncate_text_def slice_to_def)

text \<open>
  C5, as the claim states it, fails: the claim quantifies over every bound \<open>n\<close>, and for a
  bound below 3 the slice \<open>text[:max_length - 3]\<close> has a negative end, which drops
  characters from the end of the text instead of keeping a prefix. With the six-character
  text \<open>abcdef\<close> and the bound 2 the text is longer than the bound, and the output is the
  eight-character \<open>abcde...\<close>, not a string of length 2.
\<close>

theorem truncate_text_small_bound_counterexample:
  "(2::int) < int (length (str ''abcdef''))
   \<and> truncate_text (str ''abcdef'') 2 = str ''abcde...''
   \<and> int (length (truncate_text (str ''abcdef'') 2)) \<noteq> 2
   \<and> \<not> int (length (truncate_text (str ''abcdef'') 2)) \<le> 2"
  by (simp add: truncate_text_def slice_to_def str_def)

text \<open>
  C5, amended: for every string \<open>s\<close> and every bound \<open>n\<close>, if \<open>len(s) \<le> n\<close> the output is
  \<open>s\<close>; otherwise, when the bound is at least 3, the output is the first \<open>n - 3\<close>
  characters of \<open>s\<close> followed by the three characters \<open>...\<close>, so it ends in that suffix,
  has length exactly \<open>n\<close> and never exceeds \<open>n\<close>.
\<close>

theorem truncate_text_spec:
  "(int (length s) \<le> n \<longrightarrow> truncate_text s n = s)
   \<and> (n < int (length s) \<and> 3 \<le> n \<longrightarrow>
        truncate_text s n = take (nat (n - 3)) s @ str ''...''
        \<and> suffix (str ''...'') (truncate_text s n)
        \<and> int (length (truncate_text s n)) = n
        \<and> int (length (truncate_text s n)) \<le> n)"
proof (intro conjI impI)
  assume "int (length s) \<le> n"
  then show "truncate_text s n = s" by (rule truncate_text_short)
next
  assume a: "n < int (length s) \<and> 3 \<le> n"
  then show eq: "truncate_text s n = take (nat (n - 3)) s @ str ''...''"
    by (simp add: truncate_text_long)
  show "suffix (str ''...'') (truncate_text s n)"
    unfolding eq by (rule suffix_appendI) simp
  from a show len: "int (length (truncate_text s n)) = n"
    unfolding eq by (auto simp add: min_def)
  from len show "int (length (truncate_text s n)) \<le> n" by simp
qed

theorem truncate_text_spec_witness:
  "truncate_text (str ''Sarah Johnson'') 15 = str ''Sarah Johnson''
   \<and> truncate_text (str ''Bartholomew Fitzgerald'') 15 = str ''Bartholomew ...''
   \<and> int (length (truncate_text (str ''Bartholomew Fitzgerald'') 15)) = 15"
  using truncate_text_spec [of "str ''Sarah Johnson''" 15]
    truncate_text_spec [of "str ''Bartholomew Fitzgerald''" 15]
  by (simp add: str_def)

section \<open>Properties of fetch\_recent\_tickets\<close>

lemma recent_first_sorted:
  "recent_first (rev (sort_key r_created_at xs))"
proof -
  have "sorted (map r_created_at (sort_key r_created_at xs))" by (rule sorted_sort_key)
  then have "sorted_wrt (\<lambda>a b. r_created_at a \<le> r_created_at b) (sort_key r_created_at xs)"
    by (simp add: sorted_map)
  then show ?thesis
    by (simp add: recent_first_def sorted_wrt_rev)
qed

lemma recent_first_take: "recent_first xs \<Longrightarrow> recent_first (take n xs)"
  unfolding recent_first_def by (rule sorted_wrt_take)

lemma recent_first_split:
  assumes "recent_first xs"
  shows "\<forall>a \<in> set (take n xs). \<forall>b \<in> set (drop n xs). r_created_at b \<le> r_created_at a"
proof -
  from assms have "recent_first (take n xs @ drop n xs)" by simp
  then show ?thesis unfolding recent_first_def sorted_wrt_append by blast
qed

lemma join_rows:
  "set (join_tickets_customers s) =
     {joined_row t c | t c. t \<in> set (tickets_tbl s) \<and> c \<in> set (customers_tbl s)
                           \<and> t_customer_id t = c_id c}"
  by (auto simp: join_tickets_customers_def)

lemma join_one_each:
  assumes "\<forall>t \<in> set ts. \<exists>c. filter (\<lambda>c. t_customer_id t = c_id c) cs = [c]"
  shows "map r_id (concat (map (\<lambda>t. map (joined_row t) (filter (\<lambda>c. t_customer_id t = c_id c) cs)) ts))
         = map t_id ts"
  using assms
proof (induction ts)
  case Nil
  then show ?case by simp
next
  case (Cons t ts)
  then obtain c where "filter (\<lambda>c. t_customer_id t = c_id c) cs = [c]" by auto
  with Cons show ?case by (simp add: joined_row_def)
qed

lemma join_ids:
  assumes "store_ok s"
  shows "map r_id (join_tickets_customers s) = map t_id (tickets_tbl s)"
  unfolding join_tickets_customers_def
proof (rule join_one_each, rule ballI)
  fix t assume "t \<in> set (tickets_tbl s)"
  with assms obtain c where c: "c \<in> set (customers_tbl s)" "t_customer_id t = c_id c"
    by (auto simp: store_ok_def list_all_iff)
  from assms have "distinct (map c_id (customers_tbl s))" by (simp add: store_ok_def)
  from filter_distinct_key [OF this c(1)] c(2)
  have "filter (\<lambda>y. t_customer_id t = c_id y) (customers_tbl s) = [c]"
    by (simp add: eq_commute)
  then show "\<exists>c. filter (\<lambda>c. t_customer_id t = c_id c) (customers_tbl s) = [c]" ..
qed

lemma join_length:
  assumes "store_ok s"
  shows "length (join_tickets_customers s) = length (tickets_tbl s)"
  using join_ids [OF assms] by (metis length_map)

text \<open>
  C7, as the claim states it, fails: the claim quantifies over every limit, and a negative
  limit makes the query fail (\<open>LIMIT\<close> must not be negative). On the empty store with
  the limit \<open>-1\<close> the function raises instead of returning the empty sequence.
\<close>

theorem fetch_recent_tickets_negative_limit_counterexample:
  "tickets_tbl store0 = []
   \<and> fetch_recent_tickets store0 (Some (- 1)) = Inl InvalidRowCountInLimitClause
   \<and> fetch_recent_tickets store0 (Some (- 1)) \<noteq> Inr []"
  by (simp add: store0_def fetch_recent_tickets_def select_recent_def)

text \<open>
  C7, amended: for every store and every limit from 0 to \<open>2 ^ 63 - 1\<close>,
  fetch\_recent\_tickets returns (never an error) at most \<open>limit\<close> rows, \<open>limit\<close> being 5
  when the argument is left out; each row is a ticket joined to its customer; the rows
  are ordered by \<open>created_at\<close> descending and are the most recent ones (no row left out
  is more recent than a row returned); on a store that satisfies the schema's constraints
  and has more than \<open>limit\<close> tickets it returns exactly \<open>limit\<close> rows, and on a store
  with no tickets it returns the empty sequence.
\<close>

theorem fetch_recent_tickets_spec:
  assumes "0 \<le> limit" and "limit < 2 ^ 63"
  shows "\<exists>rows rest.
           fetch_recent_tickets s (Some limit) = Inr rows
           \<and> fetch_recent_tickets s None = fetch_recent_tickets s (Some 5)
           \<and> int (length rows) \<le> limit
           \<and> (\<forall>row \<in> set rows. \<exists>t \<in> set (tickets_tbl s). \<exists>c \<in> set (customers_tbl s).
                 t_customer_id t = c_id c \<and> row = joined_row t c)
           \<and> recent_first rows
           \<and> mset (rows @ rest) = mset (join_tickets_customers s)
           \<and> (\<forall>a \<in> set rows. \<forall>b \<in> set rest. r_created_at b \<le> r_created_at a)
           \<and> (store_ok s \<and> limit < int (length (tickets_tbl s)) \<longrightarrow> int (length rows) = limit)
           \<and> (tickets_tbl s = [] \<longrightarrow> rows = [])"
proof -
  let ?all = "rev (sort_key r_created_at (join_tickets_customers s))"
  let ?rows = "take (nat limit) ?all"
  let ?rest = "drop (nat limit) ?all"
  from assms have f: "fetch_recent_tickets s (Some limit) = Inr ?rows"
    by (simp add: fetch_recent_tickets_def select_recent_def)
  have d: "fetch_recent_tickets s None = fetch_recent_tickets s (Some 5)"
    by (simp add: fetch_recent_tickets_def)
  from assms(1) have l: "int (length ?rows) \<le> limit" by simp
  have "set ?rows \<subseteq> set (join_tickets_customers s)"
    using set_take_subset [of "nat limit" ?all] by simp
  then have j: "\<forall>row \<in> set ?rows. \<exists>t \<in> set (tickets_tbl s). \<exists>c \<in> set (customers_tbl s).
                 t_customer_id t = c_id c \<and> row = joined_row t c"
    unfolding join_rows by blast
  have r: "recent_first ?rows" by (intro recent_first_take recent_first_sorted)
  have "mset (?rows @ ?rest) = mset ?all" by (simp only: append_take_drop_id)
  then have m: "mset (?rows @ ?rest) = mset (join_tickets_customers s)" by simp
  have o: "\<forall>a \<in> set ?rows. \<forall>b \<in> set ?rest. r_created_at b \<le> r_created_at a"
    by (rule recent_first_split) (rule recent_first_sorted)
  have e: "store_ok s \<and> limit < int (length (tickets_tbl s)) \<longrightarrow> int (length ?rows) = limit"
    using assms(1) by (auto simp: join_length)
  have z: "tickets_tbl s = [] \<longrightarrow> ?rows = []"
    by (simp add: join_tickets_customers_def)
  from f d l j r m o e z show ?thesis by blast
qed


theorem fetch_recent_tickets_spec_witness:
  "(0::int) \<le> 5 \<and> (5::int) < 2 ^ 63 \<and> store_ok store7
   \<and> (5::int) < int (length (tickets_tbl store7))
   \<and> map_sum id (map r_id) (fetch_recent_tickets store7 None) = Inr [7, 6, 5, 4, 3]
   \<and> (\<exists>rows. fetch_recent_tickets store7 None = Inr rows
          \<and> int (length rows) = 5 \<and> recent_first rows)"
proof -
  have ok: "store_ok store7" by code_simp
  have n: "(5::int) < int (length (tickets_tbl store7))" by (simp add: store7_def)
  have v: "map_sum id (map r_id) (fetch_recent_tickets store7 None) = Inr [7, 6, 5, 4, 3]"
    by code_simp
  have l: "(0::int) \<le> 5" "(5::int) < 2 ^ 63" by simp_all
  from fetch_recent_tickets_spec [OF l, of store7] ok n
  have "\<exists>rows. fetch_recent_tickets store7 None = Inr rows
          \<and> int (length rows) = 5 \<and> recent_first rows"
    by (elim exE conjE) (simp only: , blast)
  with ok n v l show ?thesis by (intro conjI)
qed

section \<open>Properties of display\_recent\_tickets\<close>

lemma render_row_style:
  assumes "render_row U h t = Inr row"
  shows "row_style row = highlight_style h t"
  using assms
  by (auto simp: render_row_def Let_def highlight_style_def is_new_def
      split: sum.splits option.splits)

lemma render_rows_style:
  assumes "render_rows U h ts = Inr rows"
  shows "map row_style rows = map (highlight_style h) ts"
  using assms
proof (induction ts arbitrary: rows)
  case Nil
  then show ?case by simp
next
  case (Cons t ts)
  from Cons.prems obtain row rows' where a: "render_row U h t = Inr row"
    and b: "render_rows U h ts = Inr rows'" and c: "rows = row # rows'"
    by (auto split: sum.splits)
  from render_row_style [OF a] Cons.IH [OF b] c show ?case by simp
qed

lemma fetched_ids_distinct:
  assumes "store_ok s" and "fetch_recent_tickets s l = Inr ts"
  shows "distinct (map r_id ts)"
proof -
  from assms(1) have "distinct (map t_id (tickets_tbl s))" by (simp add: store_ok_def)
  with join_ids [OF assms(1)] have "distinct (map r_id (join_tickets_customers s))" by simp
  then have "distinct (map r_id (rev (sort_key r_created_at (join_tickets_customers s))))"
    by (simp add: distinct_map)
  then have "distinct (map r_id (take n (rev (sort_key r_created_at (join_tickets_customers s)))))" for n
    unfolding take_map [symmetric] by (rule distinct_take)
  with assms(2) show ?thesis
    by (auto simp: fetch_recent_tickets_def select_recent_def Let_def split: if_splits)
qed

text \<open>The display returns a table whenever the query returns rows and their scores are
  finite and in \<open>[0, 1]\<close>.\<close>

lemma render_rows_returns:
  assumes "list_all (\<lambda>t. \<exists>x. r_sentiment_score t = Finite x \<and> 0 \<le> x \<and> x \<le> 1) ts"
  shows "\<exists>rows. render_rows U h ts = Inr rows"
  using assms
proof (induction ts)
  case Nil
  then show ?case by simp
next
  case (Cons t ts)
  then obtain x where "r_sentiment_score t = Finite x" "0 \<le> x" "x \<le> 1" by auto
  with format_sentiment_unit [of x] obtain s where "format_sentiment (r_sentiment_score t) = Inr s"
    by auto
  then have "\<exists>row. render_row U h t = Inr row" by (simp add: render_row_def Let_def)
  moreover from Cons have "\<exists>rows. render_rows U h ts = Inr rows" by simp
  ultimately show ?case by auto
qed

lemma display_returns:
  assumes "fetch_recent_tickets pool (Some (case limit_arg of None \<Rightarrow> 5 | Some l \<Rightarrow> l)) = Inr tickets"
    and "tickets \<noteq> []"
    and "list_all (\<lambda>t. \<exists>x. r_sentiment_score t = Finite x \<and> 0 \<le> x \<and> x \<le> 1) tickets"
  shows "\<exists>title rows. display_recent_tickets U pool limit_arg h = Inr (Table title rows)"
proof -
  from render_rows_returns [OF assms(3)] obtain rows where "render_rows U h tickets = Inr rows"
    by blast
  with assms(1,2) show ?thesis by (simp add: display_recent_tickets_def Let_def)
qed

text \<open>
  C9: whenever display\_recent\_tickets renders a table, its rows are the fetched tickets in
  order, and a row has the highlight style exactly when \<open>highlight_id\<close> is truthy (neither
  \<open>None\<close> nor \<open>0\<close>) and equals the ticket's id, and no style otherwise. So with
  \<open>highlight_id\<close> \<open>None\<close> or \<open>0\<close> no row is highlighted, also when a ticket has the id 0;
  and with a non-zero id of a fetched ticket, in a store that satisfies the schema's
  constraints (ids are unique), exactly one row is highlighted.
\<close>

theorem display_highlight:
  assumes "display_recent_tickets U pool limit_arg highlight_id = Inr (Table title rows)"
  shows "\<exists>tickets.
           fetch_recent_tickets pool (Some (case limit_arg of None \<Rightarrow> 5 | Some l \<Rightarrow> l)) = Inr tickets
           \<and> length rows = length tickets
           \<and> map row_style rows = map (highlight_style highlight_id) tickets
           \<and> (highlight_id = None \<or> highlight_id = Some 0 \<longrightarrow>
                list_all (\<lambda>row. row_style row = None) rows)
           \<and> (store_ok pool \<and> highlight_id \<noteq> Some 0
                \<and> (\<exists>t \<in> set tickets. highlight_id = Some (r_id t)) \<longrightarrow>
                length (filter (\<lambda>row. row_style row \<noteq> None) rows) = 1)"
proof -
  let ?l = "Some (case limit_arg of None \<Rightarrow> 5 | Some l \<Rightarrow> l)"
  from assms obtain tickets where f: "fetch_recent_tickets pool ?l = Inr tickets"
    and r: "render_rows U highlight_id tickets = Inr rows"
    by (auto simp: display_recent_tickets_def Let_def split: sum.splits if_splits)
  note st = render_rows_style [OF r]
  then have len: "length rows = length tickets" by (metis length_map)
  have none: "highlight_id = None \<or> highlight_id = Some 0 \<longrightarrow>
                list_all (\<lambda>row. row_style row = None) rows"
  proof
    assume h: "highlight_id = None \<or> highlight_id = Some 0"
    then have "map (highlight_style highlight_id) tickets = map (\<lambda>t. None) tickets"
      by (auto simp: highlight_style_def)
    with st have "\<forall>x \<in> set (map row_style rows). x = None" by auto
    then show "list_all (\<lambda>row. row_style row = None) rows" by (simp add: list_all_iff)
  qed
  have one: "store_ok pool \<and> highlight_id \<noteq> Some 0
                \<and> (\<exists>t \<in> set tickets. highlight_id = Some (r_id t)) \<longrightarrow>
                length (filter (\<lambda>row. row_style row \<noteq> None) rows) = 1"
  proof
    assume a: "store_ok pool \<and> highlight_id \<noteq> Some 0
                \<and> (\<exists>t \<in> set tickets. highlight_id = Some (r_id t))"
    then obtain t where t: "t \<in> set tickets" "highlight_id = Some (r_id t)" by blast
    from a f have "distinct (map r_id tickets)" by (blast intro: fetched_ids_distinct)
    from filter_distinct_key [OF this t(1)]
    have one_t: "filter (\<lambda>y. r_id y = r_id t) tickets = [t]" .
    have "length (filter (\<lambda>row. row_style row \<noteq> None) rows)
          = length (filter (\<lambda>x. x \<noteq> None) (map row_style rows))"
      by (simp add: filter_map comp_def)
    also have "\<dots> = length (filter (\<lambda>x. x \<noteq> None) (map (highlight_style highlight_id) tickets))"
      by (simp only: st)
    also have "\<dots> = length (filter (\<lambda>y. highlight_style highlight_id y \<noteq> None) tickets)"
      by (simp add: filter_map comp_def)
    also from a t(2) have "(\<lambda>y. highlight_style highlight_id y \<noteq> None) = (\<lambda>y. r_id y = r_id t)"
      by (auto simp: highlight_style_def fun_eq_iff)
    also note one_t
    finally show "length (filter (\<lambda>row. row_style row \<noteq> None) rows) = 1" by simp
  qed
  from f len st none one show ?thesis by blast
qed


theorem display_highlight_witness:
  "store_ok store3
   \<and> map_sum id (map r_id) (fetch_recent_tickets store3 (Some 5)) = Inr [2, 1, 0]
   \<and> (\<exists>title rows. display_recent_tickets ascii_db store3 None (Some 1) = Inr (Table title rows)
          \<and> map row_style rows = [None, Some (str ''on dark_green''), None]
          \<and> length (filter (\<lambda>row. row_style row \<noteq> None) rows) = 1)
   \<and> (\<exists>title rows. display_recent_tickets ascii_db store3 None (Some 0) = Inr (Table title rows)
          \<and> list_all (\<lambda>row. row_style row = None) rows)
   \<and> (\<exists>title rows. display_recent_tickets ascii_db store3 None None = Inr (Table title rows)
          \<and> list_all (\<lambda>row. row_style row = None) rows)"
proof -
  let ?ts = "map (\<lambda>i. joined_row (example_ticket i) example_customer) [2, 1, 0]"
  have ok: "store_ok store3" by code_simp
  have f: "fetch_recent_tickets store3 (Some (case None of None \<Rightarrow> 5 | Some l \<Rightarrow> l)) = Inr ?ts"
    by code_simp
  have ids: "map_sum id (map r_id) (fetch_recent_tickets store3 (Some 5)) = Inr [2, 1, 0]"
    by code_simp
  have ne: "?ts \<noteq> []" by simp
  have "\<exists>x. r_sentiment_score (joined_row (example_ticket i) example_customer) = Finite x
          \<and> 0 \<le> x \<and> x \<le> 1" for i
    by (intro exI [of _ "1 / 2"]) (simp add: joined_row_def example_ticket_def)
  then have sc: "list_all (\<lambda>t. \<exists>x. r_sentiment_score t = Finite x \<and> 0 \<le> x \<and> x \<le> 1) ?ts"
    unfolding list_all_iff by auto
  have hl: "map (highlight_style (Some 1)) ?ts = [None, Some (str ''on dark_green''), None]"
    by (simp add: highlight_style_def joined_row_def example_ticket_def)
  have mem: "\<exists>t \<in> set ?ts. Some (1::int) = Some (r_id t)"
    by (simp add: joined_row_def example_ticket_def)
  from display_returns [OF f ne sc, of ascii_db "Some 1"]
  obtain title1 rows1 where d1: "display_recent_tickets ascii_db store3 None (Some 1) = Inr (Table title1 rows1)"
    by blast
  from display_highlight [OF d1] f ok hl mem
  have a: "map row_style rows1 = [None, Some (str ''on dark_green''), None]
      \<and> length (filter (\<lambda>row. row_style row \<noteq> None) rows1) = 1"
    by auto
  from display_returns [OF f ne sc, of ascii_db "Some 0"]
  obtain title0 rows0 where d0: "display_recent_tickets ascii_db store3 None (Some 0) = Inr (Table title0 rows0)"
    by blast
  from display_highlight [OF d0] have b: "list_all (\<lambda>row. row_style row = None) rows0" by auto
  from display_returns [OF f ne sc, of ascii_db None]
  obtain titlen rowsn where dn: "display_recent_tickets ascii_db store3 None None = Inr (Table titlen rowsn)"
    by blast
  from display_highlight [OF dn] have c: "list_all (\<lambda>row. row_style row = None) rowsn" by auto
  from d1 a have e1: "\<exists>title rows. display_recent_tickets ascii_db store3 None (Some 1) = Inr (Table title rows)
          \<and> map row_style rows = [None, Some (str ''on dark_green''), None]
          \<and> length (filter (\<lambda>row. row_style row \<noteq> None) rows) = 1"
    by (intro exI [of _ title1] exI [of _ rows1]) simp
  from d0 b have e0: "\<exists>title rows. display_recent_tickets ascii_db store3 None (Some 0) = Inr (Table title rows)
          \<and> list_all (\<lambda>row. row_style row = None) rows"
    by (intro exI [of _ title0] exI [of _ rows0]) simp
  from dn c have en: "\<exists>title rows. display_recent_tickets ascii_db store3 None None = Inr (Table title rows)
          \<and> list_all (\<lambda>row. row_style row = None) rows"
    by (intro exI [of _ titlen] exI [of _ rowsn]) simp
  from ok ids e1 e0 en show ?thesis by (intro conjI)
qed

section \<open>Properties of get\_ticket\_input\<close>

lemma sample_tickets_not_sentinel:
  "\<forall>t \<in> set SAMPLE_TICKETS. t \<noteq> str ''ALL_SAMPLES''"
  by (simp add: SAMPLE_TICKETS_def sample_ticket_1_def sample_ticket_2_def sample_ticket_3_def
      sample_ticket_4_def sample_ticket_5_def str_def)

lemma length_SAMPLE_TICKETS: "length SAMPLE_TICKETS = 5"
  by (simp add: SAMPLE_TICKETS_def)

text \<open>
  C10: with no command-line argument (\<open>sys.argv\<close> holds at most the program name),
  get\_ticket\_input returns the module's \<open>SAMPLE_TICKET\<close>: for every draw of
  \<open>random.choice\<close> that is one element of \<open>SAMPLE_TICKETS\<close>, chosen when the module is
  imported; the result does not depend on the standard input, and it is not the batch
  sentinel \<open>ALL_SAMPLES\<close>.
\<close>

theorem get_ticket_input_default:
  assumes "length argv \<le> 1"
  shows "\<exists>t. SAMPLE_TICKET r = Inr t \<and> t \<in> set SAMPLE_TICKETS
           \<and> get_ticket_input U argv t stdin = t
           \<and> t \<noteq> str ''ALL_SAMPLES''"
proof -
  let ?t = "SAMPLE_TICKETS ! (r mod 5)"
  have "r mod 5 < length SAMPLE_TICKETS" by (simp add: length_SAMPLE_TICKETS)
  then have m: "?t \<in> set SAMPLE_TICKETS" by (rule nth_mem)
  have "SAMPLE_TICKET r = Inr ?t"
    by (simp add: SAMPLE_TICKET_def random_choice_def index_def length_SAMPLE_TICKETS)
  moreover from assms have "get_ticket_input U argv ?t stdin = ?t"
    by (simp add: get_ticket_input_def)
  moreover from m sample_tickets_not_sentinel have "?t \<noteq> str ''ALL_SAMPLES''" by blast
  ultimately show ?thesis using m by blast
qed

theorem get_ticket_input_default_witness:
  "length [str ''main.py''] \<le> 1
   \<and> SAMPLE_TICKET 7 = Inr sample_ticket_3
   \<and> get_ticket_input ascii_db [str ''main.py''] sample_ticket_3 [str ''typed'', str ''END''] = sample_ticket_3
   \<and> sample_ticket_3 \<noteq> str ''ALL_SAMPLES''"
proof -
  have l: "length [str ''main.py''] \<le> 1" by simp
  have s: "SAMPLE_TICKET 7 = Inr sample_ticket_3"
    by (simp add: SAMPLE_TICKET_def random_choice_def index_def SAMPLE_TICKETS_def)
  from get_ticket_input_default [OF l, of 7 ascii_db "[str ''typed'', str ''END'']"] s l
  show ?thesis by auto
qed


end
